theory Spec2Isabelle
  imports Main "HOL-Library.Word"
begin

section \<open>Region printer: the region tree as nested graphviz clusters\<close>

text \<open>
  A shallow embedding of \<^verbatim>\<open>contrib/llvm/lib/Analysis/RegionPrinter.cpp\<close>: the node
  labeler \<^verbatim>\<open>DOTGraphTraits<RegionNode*>::getNodeLabel\<close>, the edge classifier
  \<^verbatim>\<open>DOTGraphTraits<RegionInfo*>::getEdgeAttributes\<close> and the cluster emitter
  \<^verbatim>\<open>printRegionCluster\<close> with its caller \<^verbatim>\<open>addCustomGraphFeatures\<close>.

  The region analysis (\<^verbatim>\<open>RegionInfo.h\<close>), the block formatter of the CFG printer and
  the output stream are declared outside that file. What the printer reads from them is
  taken as data: a region object is a record of the values its accessors return, the
  analysis is a record holding the region objects by address, and the two formatting
  operators of the stream are fields of a record.
\<close>

subsection \<open>Data model\<close>

type_synonym BasicBlock = nat
  \<comment> \<open>a \<^verbatim>\<open>BasicBlock*\<close>: only the identity of a block matters\<close>

type_synonym Function = nat
  \<comment> \<open>a \<^verbatim>\<open>Function*\<close>\<close>

type_synonym region_ptr = nat
  \<comment> \<open>the address of a \<^verbatim>\<open>Region\<close> object; a \<^verbatim>\<open>Region*\<close> that may be null is a
      \<open>region_ptr option\<close>, with \<open>None\<close> the null pointer\<close>

text \<open>
  A region object, as the printer sees it through its accessors:
  \<^verbatim>\<open>getEntry()\<close>, \<^verbatim>\<open>getParent()\<close> (null at the top-level region), the child regions
  in the order of \<^verbatim>\<open>begin()\<close> .. \<^verbatim>\<open>end()\<close>, the blocks in the order of
  \<^verbatim>\<open>block_begin()\<close> .. \<^verbatim>\<open>block_end()\<close>, \<^verbatim>\<open>contains(BB)\<close>, \<^verbatim>\<open>isSimple()\<close> and
  \<^verbatim>\<open>getDepth()\<close> (an \<^verbatim>\<open>unsigned\<close>).
\<close>

record Region =
  getEntry :: BasicBlock
  getParent :: "region_ptr option"
  subregions :: "region_ptr list"
  blocks :: "BasicBlock list"
  contains :: "BasicBlock \<Rightarrow> bool"
  isSimple :: bool
  getDepth :: "32 word"

text \<open>
  The analysis result: \<^verbatim>\<open>getTopLevelRegion()\<close>, \<^verbatim>\<open>getRegionFor(BB)\<close> (null when the
  block has no region), the region objects by address, and the address of the node that
  \<^verbatim>\<open>getTopLevelRegion()->getBBNode(BB)\<close> returns for a block. A \<^verbatim>\<open>Region*\<close> that is not
  null points to a region object, so \<open>region_at\<close> is total. Nothing here says that the
  objects form a tree: a property that needs it assumes it.
\<close>

record RegionInfo =
  getTopLevelRegion :: region_ptr
  getRegionFor :: "BasicBlock \<Rightarrow> region_ptr option"
  region_at :: "region_ptr \<Rightarrow> Region"
  getBBNode :: "BasicBlock \<Rightarrow> nat"

text \<open>
  A \<^verbatim>\<open>RegionNode\<close> wraps a basic block or a sub-region; \<^verbatim>\<open>isSubRegion()\<close> tells
  which, and \<^verbatim>\<open>getNodeAs<BasicBlock>()\<close> is the block of a leaf.
\<close>

datatype RegionNode = BBNode BasicBlock | SubRegionNode region_ptr

fun isSubRegion :: "RegionNode \<Rightarrow> bool" where
  "isSubRegion (BBNode _) = False"
| "isSubRegion (SubRegionNode _) = True"

text \<open>
  The block formatter of the CFG printer (\<^verbatim>\<open>DOTGraphTraits<const Function*>\<close>) and
  \<^verbatim>\<open>BasicBlock::getParent()\<close>.
\<close>

record CFGTraits =
  getSimpleNodeLabel :: "BasicBlock \<Rightarrow> Function \<Rightarrow> string"
  getCompleteNodeLabel :: "BasicBlock \<Rightarrow> Function \<Rightarrow> string"
  block_parent :: "BasicBlock \<Rightarrow> Function"

text \<open>
  The two formatting operators of \<^verbatim>\<open>raw_ostream\<close> that the cluster emitter uses:
  \<^verbatim>\<open>operator<<(const void*)\<close> and \<^verbatim>\<open>operator<<(unsigned)\<close>.
\<close>

record GraphWriter =
  write_ptr :: "nat \<Rightarrow> string"
  write_unsigned :: "32 word \<Rightarrow> string"

datatype fault = NullDereference

subsection \<open>Node labeler\<close>

text \<open>
  \<^verbatim>\<open>DOTGraphTraits<RegionNode*>::getNodeLabel(Node, Graph)\<close>, with \<open>isSimple_mode\<close> the
  value of \<^verbatim>\<open>isSimple()\<close> of the traits object, and the variant of
  \<^verbatim>\<open>DOTGraphTraits<RegionInfo*>\<close>, which passes the top-level region as the graph.
\<close>

definition getNodeLabel :: "CFGTraits \<Rightarrow> bool \<Rightarrow> RegionNode \<Rightarrow> region_ptr \<Rightarrow> string" where
  "getNodeLabel cfg isSimple_mode Node Graph =
     (case Node of
        BBNode BB \<Rightarrow>
          if isSimple_mode
          then getSimpleNodeLabel cfg BB (block_parent cfg BB)
          else getCompleteNodeLabel cfg BB (block_parent cfg BB)
      | SubRegionNode _ \<Rightarrow> ''Not implemented'')"

definition getNodeLabel_RI :: "CFGTraits \<Rightarrow> bool \<Rightarrow> RegionNode \<Rightarrow> RegionInfo \<Rightarrow> string" where
  "getNodeLabel_RI cfg isSimple_mode Node G =
     getNodeLabel cfg isSimple_mode Node (getTopLevelRegion G)"

subsection \<open>Edge classifier\<close>

text \<open>
  The loop
  \<^verbatim>\<open>while (R && R->getParent()) if (R->getParent()->getEntry() == destBB) R = R->getParent(); else break;\<close>
  as a function of the pointer \<open>R\<close>. It returns the value of \<open>R\<close> when the loop is
  left; \<open>None\<close> (of the outer option) is a loop that never ends.
\<close>

partial_function (option) climb ::
  "RegionInfo \<Rightarrow> BasicBlock \<Rightarrow> region_ptr option \<Rightarrow> region_ptr option option" where
  "climb RI destBB R =
     (case R of
        None \<Rightarrow> Some R
      | Some r \<Rightarrow>
          (case getParent (region_at RI r) of
             None \<Rightarrow> Some R
           | Some p \<Rightarrow>
               if getEntry (region_at RI p) = destBB
               then climb RI destBB (Some p)
               else Some R))"

declare climb.simps [code]

text \<open>
  \<^verbatim>\<open>getEdgeAttributes(srcNode, CI, RI)\<close>, with \<open>destNode\<close> the node \<^verbatim>\<open>*CI\<close>. The case
  distinction on the two nodes is the test
  \<^verbatim>\<open>srcNode->isSubRegion() || destNode->isSubRegion()\<close> followed by
  \<^verbatim>\<open>getNodeAs<BasicBlock>()\<close> on both. The result is \<open>None\<close> when the call does not
  return, \<open>Some (Inl NullDereference)\<close> when \<^verbatim>\<open>R->getEntry()\<close> after the loop is applied
  to a null \<open>R\<close>, and \<open>Some (Inr s)\<close> when it returns the string \<open>s\<close>.
\<close>

definition getEdgeAttributes ::
  "RegionInfo \<Rightarrow> RegionNode \<Rightarrow> RegionNode \<Rightarrow> (fault + string) option" where
  "getEdgeAttributes RI srcNode destNode =
     (case (srcNode, destNode) of
        (BBNode srcBB, BBNode destBB) \<Rightarrow>
          (case climb RI destBB (getRegionFor RI destBB) of
             None \<Rightarrow> None
           | Some None \<Rightarrow> Some (Inl NullDereference)
           | Some (Some R) \<Rightarrow>
               if getEntry (region_at RI R) = destBB \<and> contains (region_at RI R) srcBB
               then Some (Inr ''constraint=false'')
               else Some (Inr ''''))
      | _ \<Rightarrow> Some (Inr ''''))"

subsection \<open>Cluster emitter\<close>

text \<open>
  \<^verbatim>\<open>O.indent(NumSpaces)\<close> writes that many spaces. The count is an \<^verbatim>\<open>unsigned\<close>,
  computed as \<^verbatim>\<open>2 * depth\<close> or \<^verbatim>\<open>2 * (depth + 1)\<close> in 32-bit arithmetic.
\<close>

definition indent :: "32 word \<Rightarrow> string" where
  "indent NumSpaces = replicate (unat NumSpaces) (CHR '' '')"

text \<open>
  The opening of a cluster (lines 104 to 106 of the source): the \<^verbatim>\<open>subgraph\<close> line
  keyed by the region's address, and the empty label.
\<close>

definition cluster_head :: "GraphWriter \<Rightarrow> region_ptr \<Rightarrow> 32 word \<Rightarrow> string" where
  \<open>cluster_head GW R depth =
     indent (2 * depth) @ ''subgraph cluster_'' @ write_ptr GW R @ '' {\<newline>'' @
     indent (2 * (depth + 1)) @ ''label = "";\<newline>''\<close>

text \<open>
  The style and the colour (lines 108 to 117), chosen from the option
  \<^verbatim>\<open>onlySimpleRegions\<close>, \<^verbatim>\<open>R->isSimple()\<close> and \<^verbatim>\<open>R->getDepth()\<close>. The colour is
  computed in \<^verbatim>\<open>unsigned\<close> arithmetic: \<^verbatim>\<open>(R->getDepth() * 2 % 12) + 1\<close>.
\<close>

definition cluster_style ::
  "GraphWriter \<Rightarrow> RegionInfo \<Rightarrow> bool \<Rightarrow> region_ptr \<Rightarrow> 32 word \<Rightarrow> string" where
  "cluster_style GW RI onlySimpleRegions R depth =
     (if \<not> onlySimpleRegions \<or> isSimple (region_at RI R) then
        indent (2 * (depth + 1)) @ ''style = filled;\<newline>'' @
        indent (2 * (depth + 1)) @ ''color = '' @
          write_unsigned GW ((getDepth (region_at RI R) * 2 mod 12) + 1) @ ''\<newline>''
      else
        indent (2 * (depth + 1)) @ ''style = solid;\<newline>'' @
        indent (2 * (depth + 1)) @ ''color = '' @
          write_unsigned GW ((getDepth (region_at RI R) * 2 mod 12) + 2) @ ''\<newline>'')"

definition cluster_open ::
  "GraphWriter \<Rightarrow> RegionInfo \<Rightarrow> bool \<Rightarrow> region_ptr \<Rightarrow> 32 word \<Rightarrow> string" where
  "cluster_open GW RI onlySimpleRegions R depth =
     cluster_head GW R depth @ cluster_style GW RI onlySimpleRegions R depth"

text \<open>
  The block loop (lines 124 to 129): of the blocks that the block iterator of \<open>R\<close>
  enumerates, those with \<^verbatim>\<open>RI->getRegionFor(*BI) == R\<close> get a line naming their node.
\<close>

definition owned_blocks :: "RegionInfo \<Rightarrow> region_ptr \<Rightarrow> BasicBlock list" where
  "owned_blocks RI R =
     filter (\<lambda>BB. getRegionFor RI BB = Some R) (blocks (region_at RI R))"

definition node_line :: "GraphWriter \<Rightarrow> RegionInfo \<Rightarrow> 32 word \<Rightarrow> BasicBlock \<Rightarrow> string" where
  "node_line GW RI depth BB =
     indent (2 * (depth + 1)) @ ''Node'' @ write_ptr GW (getBBNode RI BB) @ '';\<newline>''"

definition cluster_blocks ::
  "GraphWriter \<Rightarrow> RegionInfo \<Rightarrow> region_ptr \<Rightarrow> 32 word \<Rightarrow> string" where
  "cluster_blocks GW RI R depth = concat (map (node_line GW RI depth) (owned_blocks RI R))"

definition cluster_close :: "32 word \<Rightarrow> string" where
  "cluster_close depth = indent (2 * depth) @ ''}\<newline>''"

text \<open>
  The loop over the child regions (lines 119 and 120): the body is run on each child in
  turn and what the runs write is concatenated; it does not return when one run does not.
\<close>

fun for_subregions :: "region_ptr list \<Rightarrow> (region_ptr \<Rightarrow> string option) \<Rightarrow> string option" where
  "for_subregions [] body = Some []"
| "for_subregions (C # Cs) body =
     Option.bind (body C) (\<lambda>s. Option.bind (for_subregions Cs body) (\<lambda>t. Some (s @ t)))"

lemma for_subregions_mono [partial_function_mono]:
  assumes "\<And>C. mono_option (\<lambda>f. body f C)"
  shows "mono_option (\<lambda>f. for_subregions Cs (body f))"
proof (induction Cs)
  case Nil
  show ?case by (simp add: option.const_mono)
next
  case (Cons C Cs)
  show ?case
    unfolding for_subregions.simps
    by (intro bind_mono assms Cons.IH option.const_mono)
qed

text \<open>
  \<^verbatim>\<open>printRegionCluster(R, GW, depth)\<close>: the text it appends to the stream of \<open>GW\<close>,
  \<open>None\<close> when the recursion does not return. The analysis \<open>RI\<close> is the one that
  \<^verbatim>\<open>R->getRegionInfo()\<close> returns.
\<close>

partial_function (option) printRegionCluster ::
  "GraphWriter \<Rightarrow> RegionInfo \<Rightarrow> bool \<Rightarrow> region_ptr \<Rightarrow> 32 word \<Rightarrow> string option" where
  "printRegionCluster GW RI onlySimpleRegions R depth =
     Option.bind
       (for_subregions (subregions (region_at RI R))
          (\<lambda>C. printRegionCluster GW RI onlySimpleRegions C (depth + 1)))
       (\<lambda>sub. Some (cluster_open GW RI onlySimpleRegions R depth @ sub @
                     cluster_blocks GW RI R depth @ cluster_close depth))"

declare printRegionCluster.simps [code]

definition addCustomGraphFeatures ::
  "GraphWriter \<Rightarrow> RegionInfo \<Rightarrow> bool \<Rightarrow> string option" where
  \<open>addCustomGraphFeatures GW RI onlySimpleRegions =
     map_option (\<lambda>s. CHR 0x09 # ''colorscheme = "paired12"\<newline>'' @ s)
       (printRegionCluster GW RI onlySimpleRegions (getTopLevelRegion RI) 4)\<close>

section \<open>Specification vocabulary\<close>

subsection \<open>Colour assignment\<close>

text \<open>
  The colour assignment as the specification words it: with the simple-regions-only
  mode off, or for a simple region, the style is filled and the colour index is
  \<open>(depth * 2) mod 12 + 1\<close>; otherwise the style is solid and the index is
  \<open>(depth * 2) mod 12 + 2\<close>. The depth is the 32-bit value of the region's depth
  attribute and the arithmetic is that of the attribute's type.
\<close>

definition ColorAssignment :: "bool \<Rightarrow> bool \<Rightarrow> 32 word \<Rightarrow> string \<times> 32 word" where
  "ColorAssignment simple_only simple regionDepth =
     (if \<not> simple_only \<or> simple
      then (''filled'', (regionDepth * 2) mod 12 + 1)
      else (''solid'', (regionDepth * 2) mod 12 + 2))"

subsection \<open>Ancestor chains and finite region trees\<close>

text \<open>
  \<open>parent_chain RI r ps\<close>: following \<^verbatim>\<open>getParent()\<close> from \<open>r\<close> visits the regions
  \<open>ps\<close> in this order and then reaches the null parent. There is such a list exactly when
  the chain of parents of \<open>r\<close> is finite, which excludes a cycle.
\<close>

inductive parent_chain :: "RegionInfo \<Rightarrow> region_ptr \<Rightarrow> region_ptr list \<Rightarrow> bool" where
  top: "getParent (region_at RI r) = None \<Longrightarrow> parent_chain RI r []"
| up: "getParent (region_at RI r) = Some p \<Longrightarrow> parent_chain RI p ps \<Longrightarrow>
       parent_chain RI r (p # ps)"

code_pred parent_chain .

text \<open>
  \<open>finite_region_tree RI R\<close>: the regions below \<open>R\<close> form a finite tree, that is, every
  path through child regions from \<open>R\<close> ends.
\<close>

inductive finite_region_tree :: "RegionInfo \<Rightarrow> region_ptr \<Rightarrow> bool" where
  node: "(\<And>C. C \<in> set (subregions (region_at RI R)) \<Longrightarrow> finite_region_tree RI C) \<Longrightarrow>
         finite_region_tree RI R"

subsection \<open>Cluster documents\<close>

text \<open>
  The nested structure of a cluster document: a cluster keyed by a region, the clusters
  nested in it, in order, and the blocks referenced directly in it.
\<close>

datatype cluster =
  Cluster (cluster_id: region_ptr) (nested: "cluster list") (cluster_nodes: "BasicBlock list")

text \<open>
  \<open>cluster_tree_of RI R c\<close>: the cluster \<open>c\<close> mirrors the region tree below \<open>R\<close>. It
  is keyed by \<open>R\<close>, its nested clusters mirror the child regions of \<open>R\<close>, one per child
  and in their order, and it references the blocks that \<open>R\<close> owns directly: those of its
  blocks whose innermost region is \<open>R\<close> itself.
\<close>

inductive cluster_tree_of :: "RegionInfo \<Rightarrow> region_ptr \<Rightarrow> cluster \<Rightarrow> bool" where
  mirror: "list_all2 (cluster_tree_of RI) (subregions (region_at RI R)) cs \<Longrightarrow>
           cluster_tree_of RI R
             (Cluster R cs (filter (\<lambda>BB. getRegionFor RI BB = Some R) (blocks (region_at RI R))))"

text \<open>
  The text of a cluster at a nesting depth, in the syntax of the target document: the
  \<^verbatim>\<open>subgraph\<close> line that opens the cluster, the empty label, the style and the colour of
  the colour assignment, then the complete texts of the nested clusters one level deeper,
  then one \<^verbatim>\<open>Node\<close> line per referenced block, then the closing brace. A line at depth
  \<open>d\<close> is indented by \<open>2 * d\<close> spaces, a line inside the cluster by two more.
\<close>

fun render_cluster :: "GraphWriter \<Rightarrow> RegionInfo \<Rightarrow> bool \<Rightarrow> 32 word \<Rightarrow> cluster \<Rightarrow> string" where
  \<open>render_cluster GW RI simple_only depth (Cluster R cs bs) =
     replicate (unat (2 * depth)) (CHR '' '') @
       ''subgraph cluster_'' @ write_ptr GW R @ '' {\<newline>'' @
     replicate (unat (2 * (depth + 1))) (CHR '' '') @ ''label = "";\<newline>'' @
     replicate (unat (2 * (depth + 1))) (CHR '' '') @ ''style = '' @
       fst (ColorAssignment simple_only (isSimple (region_at RI R))
              (getDepth (region_at RI R))) @ '';\<newline>'' @
     replicate (unat (2 * (depth + 1))) (CHR '' '') @ ''color = '' @
       write_unsigned GW
         (snd (ColorAssignment simple_only (isSimple (region_at RI R))
                 (getDepth (region_at RI R)))) @ ''\<newline>'' @
     concat (map (render_cluster GW RI simple_only (depth + 1)) cs) @
     concat (map (\<lambda>BB. replicate (unat (2 * (depth + 1))) (CHR '' '') @ ''Node'' @
                        write_ptr GW (getBBNode RI BB) @ '';\<newline>'') bs) @
     replicate (unat (2 * depth)) (CHR '' '') @ ''}\<newline>''\<close>

text \<open>All clusters of a document, each occurrence counted: the cluster and those nested in it.\<close>

fun clusters_of :: "cluster \<Rightarrow> cluster list" where
  "clusters_of (Cluster R cs bs) = Cluster R cs bs # concat (map clusters_of cs)"

subsection \<open>The emitter as a relation\<close>

text \<open>
  \<open>emits GW RI onlySimpleRegions R depth out\<close>: the run of the cluster emitter on \<open>R\<close>
  at \<open>depth\<close> returns and writes \<open>out\<close>. The relation is the graph of the emitter and
  serves the proofs by induction on a run.
\<close>

inductive emits ::
  "GraphWriter \<Rightarrow> RegionInfo \<Rightarrow> bool \<Rightarrow> region_ptr \<Rightarrow> 32 word \<Rightarrow> string \<Rightarrow> bool" where
  cluster: "list_all2 (\<lambda>C s. emits GW RI onlySimpleRegions C (depth + 1) s)
              (subregions (region_at RI R)) subs \<Longrightarrow>
            emits GW RI onlySimpleRegions R depth
              (cluster_open GW RI onlySimpleRegions R depth @ concat subs @
               cluster_blocks GW RI R depth @ cluster_close depth)"

subsection \<open>Bracket matching\<close>

text \<open>
  \<open>brace_scan n s\<close> reads \<open>s\<close> with \<open>n\<close> braces open and returns the
  number of braces open at the end, or \<open>None\<close> when a closing brace has no partner.
\<close>

fun brace_scan :: "nat \<Rightarrow> string \<Rightarrow> nat option" where
  "brace_scan n [] = Some n"
| "brace_scan n (c # cs) =
     (if c = CHR ''{'' then brace_scan (Suc n) cs
      else if c = CHR ''}'' then (case n of 0 \<Rightarrow> None | Suc m \<Rightarrow> brace_scan m cs)
      else brace_scan n cs)"

definition well_bracketed :: "string \<Rightarrow> bool" where
  "well_bracketed s = (brace_scan 0 s = Some 0)"

definition brace_free :: "string \<Rightarrow> bool" where
  "brace_free s = (CHR ''{'' \<notin> set s \<and> CHR ''}'' \<notin> set s)"

subsection \<open>Indentation\<close>

text \<open>
  \<open>strip_indent bol s\<close> removes the indentation of \<open>s\<close>: the spaces at the beginning
  of each line. The flag \<open>bol\<close> tells whether the reader is at the beginning of a line.
\<close>

fun strip_indent :: "bool \<Rightarrow> string \<Rightarrow> string" where
  "strip_indent bol [] = []"
| "strip_indent bol (c # cs) =
     (if c = CHR 0x0A then c # strip_indent True cs
      else if bol \<and> c = CHR '' '' then strip_indent True cs
      else c # strip_indent False cs)"

text \<open>\<open>ends_line s\<close>: the text \<open>s\<close> is empty or ends with a newline.\<close>

definition ends_line :: "string \<Rightarrow> bool" where
  "ends_line s = (s = [] \<or> last s = CHR 0x0A)"

section \<open>Example analyses\<close>

text \<open>
  A function with one natural loop: blocks \<open>0\<close> (entry), \<open>1\<close> (the loop header H),
  \<open>2\<close> (A), \<open>3\<close> (B) and \<open>4\<close> (exit), the back edge from B to H, and the region tree
  with the top-level region at address \<open>100\<close> and the loop region, of the blocks H, A
  and B, at address \<open>200\<close>.
\<close>

definition loop_top :: Region where
  "loop_top = \<lparr> getEntry = 0, getParent = None, subregions = [200],
                blocks = [0, 1, 2, 3, 4], contains = (\<lambda>BB. True),
                isSimple = False, getDepth = 0 \<rparr>"

definition loop_body :: Region where
  "loop_body = \<lparr> getEntry = 1, getParent = Some 100, subregions = [],
                 blocks = [1, 2, 3], contains = (\<lambda>BB. BB \<in> {1, 2, 3}),
                 isSimple = True, getDepth = 1 \<rparr>"

definition loop_RI :: RegionInfo where
  "loop_RI = \<lparr> getTopLevelRegion = 100,
               getRegionFor = (\<lambda>BB. if BB \<in> {1, 2, 3} then Some 200
                                     else if BB \<in> {0, 4} then Some 100 else None),
               region_at = (\<lambda>p. if p = 200 then loop_body else loop_top),
               getBBNode = (\<lambda>BB. 1000 + BB) \<rparr>"

text \<open>
  A chain of four regions \<open>4\<close>, \<open>3\<close>, \<open>2\<close>, \<open>1\<close> from the innermost to the top-level
  one, with the entry blocks \<open>7\<close>, \<open>7\<close>, \<open>5\<close> and \<open>7\<close>.
\<close>

definition chain_region :: "region_ptr \<Rightarrow> Region" where
  "chain_region p =
     \<lparr> getEntry = (if p = 2 then 5 else 7),
       getParent = (if p = 4 then Some 3 else if p = 3 then Some 2
                    else if p = 2 then Some 1 else None),
       subregions = (if p = 1 then [2] else if p = 2 then [3] else if p = 3 then [4] else []),
       blocks = [5, 7], contains = (\<lambda>BB. BB \<in> {5, 7}),
       isSimple = False, getDepth = (if p = 4 then 3 else if p = 3 then 2
                    else if p = 2 then 1 else 0) \<rparr>"

definition chain_RI :: RegionInfo where
  "chain_RI = \<lparr> getTopLevelRegion = 1,
                getRegionFor = (\<lambda>BB. if BB = 7 then Some 4 else if BB = 5 then Some 2 else None),
                region_at = chain_region,
                getBBNode = (\<lambda>BB. BB) \<rparr>"

text \<open>
  Two nested loops that share their header: blocks \<open>0\<close> (entry), \<open>1\<close> (the header H of
  both loops), \<open>2\<close> (the body of the inner loop), \<open>3\<close> (the rest of the outer loop)
  and \<open>4\<close> (exit). The top-level region is at address \<open>100\<close>, the region of the outer
  loop, of the blocks \<open>1\<close>, \<open>2\<close> and \<open>3\<close>, at \<open>200\<close>, and the region of the inner
  loop, of the blocks \<open>1\<close> and \<open>2\<close>, at \<open>300\<close>.
\<close>

definition nested_region :: "region_ptr \<Rightarrow> Region" where
  "nested_region p =
     (if p = 300 then
        \<lparr> getEntry = 1, getParent = Some 200, subregions = [],
          blocks = [1, 2], contains = (\<lambda>BB. BB \<in> {1, 2}),
          isSimple = True, getDepth = 2 \<rparr>
      else if p = 200 then
        \<lparr> getEntry = 1, getParent = Some 100, subregions = [300],
          blocks = [1, 2, 3], contains = (\<lambda>BB. BB \<in> {1, 2, 3}),
          isSimple = False, getDepth = 1 \<rparr>
      else
        \<lparr> getEntry = 0, getParent = None, subregions = [200],
          blocks = [0, 1, 2, 3, 4], contains = (\<lambda>BB. True),
          isSimple = False, getDepth = 0 \<rparr>)"

definition nested_RI :: RegionInfo where
  "nested_RI = \<lparr> getTopLevelRegion = 100,
                 getRegionFor = (\<lambda>BB. if BB \<in> {1, 2} then Some 300
                                       else if BB = 3 then Some 200
                                       else if BB \<in> {0, 4} then Some 100 else None),
                 region_at = nested_region,
                 getBBNode = (\<lambda>BB. 1000 + BB) \<rparr>"

definition nested_doc :: cluster where
  "nested_doc = Cluster 100 [Cluster 200 [Cluster 300 [] [1, 2]] [3]] [0, 4]"

text \<open>
  A stream that writes an address in hexadecimal after \<^verbatim>\<open>0x\<close> and a number in
  decimal.
\<close>

definition hex_digits :: string where
  "hex_digits = ''0123456789abcdef''"

fun write_base :: "nat \<Rightarrow> nat \<Rightarrow> string" where
  "write_base b n =
     (if b < 2 \<or> n < b then [hex_digits ! (n mod 16)]
      else write_base b (n div b) @ [hex_digits ! (n mod b mod 16)])"

declare write_base.simps [simp del]

definition dot_GW :: GraphWriter where
  "dot_GW = \<lparr> write_ptr = (\<lambda>p. ''0x'' @ write_base 16 p),
              write_unsigned = (\<lambda>w. write_base 10 (unat w)) \<rparr>"

section \<open>Properties\<close>

subsection \<open>Node labeler\<close>

text \<open>
  Claim C7. The node labeler returns a string for every node and has no failing branch:
  for a node that wraps a basic block it is the simple label of the block when simple
  mode is on and the complete label otherwise, and for a node that wraps a sub-region it
  is the one fixed string \<^verbatim>\<open>Not implemented\<close>, whatever the region, the mode and the
  graph argument are. The labeler of the whole analysis is the same function.
\<close>

theorem getNodeLabel_total:
  "getNodeLabel cfg True (BBNode BB) Graph = getSimpleNodeLabel cfg BB (block_parent cfg BB) \<and>
   getNodeLabel cfg False (BBNode BB) Graph = getCompleteNodeLabel cfg BB (block_parent cfg BB) \<and>
   getNodeLabel cfg mode (SubRegionNode SR) Graph = ''Not implemented'' \<and>
   getNodeLabel_RI cfg mode Node G = getNodeLabel cfg mode Node (getTopLevelRegion G)"
  by (simp add: getNodeLabel_def getNodeLabel_RI_def)

subsection \<open>The ancestor climb\<close>

text \<open>The loop leaves a null pointer as it is.\<close>

lemma climb_null: "climb RI destBB None = Some None"
  by (simp add: climb.simps)

text \<open>
  On a finite chain of parents the loop ends, at the last region of the longest run of
  ancestors that all have \<open>destBB\<close> as their entry.
\<close>

lemma climb_chain:
  "parent_chain RI r ps \<Longrightarrow>
   climb RI destBB (Some r) =
     Some (Some (last (r # takeWhile (\<lambda>p. getEntry (region_at RI p) = destBB) ps)))"
proof (induction rule: parent_chain.induct)
  case (top RI r)
  then show ?case by (simp add: climb.simps)
next
  case (up RI r p ps)
  then show ?case by (subst climb.simps) simp
qed

text \<open>The loop never turns a region into the null pointer.\<close>

lemma climb_not_null:
  assumes "climb RI destBB R = Some R'"
  shows "R \<noteq> None \<longrightarrow> R' \<noteq> None"
  by (rule climb.raw_induct
        [where P = "\<lambda>RI destBB R y. R \<noteq> None \<longrightarrow> y \<noteq> None", OF _ assms])
     (auto split: option.splits if_splits)

lemma last_takeWhile_nth:
  "last (r # takeWhile P ps) = (r # ps) ! length (takeWhile P ps)"
  by (induction ps arbitrary: r) simp_all

lemma chain_RI_parents: "parent_chain chain_RI 4 [3, 2, 1]"
  by (intro parent_chain.intros) (simp_all add: chain_RI_def chain_region_def)

lemma loop_RI_parents: "parent_chain loop_RI 200 [100]"
  by (intro parent_chain.intros) (simp_all add: loop_RI_def loop_top_def loop_body_def)

text \<open>
  Claim C5. Let \<open>r\<close> be the innermost region of \<open>destBB\<close> and \<open>ps\<close> its ancestors,
  from its parent to the top-level region. The climb returns the region \<open>k\<close> steps above
  \<open>r\<close>, where the first \<open>k\<close> ancestors all have \<open>destBB\<close> as their entry block and the
  next ancestor, when there is one, has another entry block: the outermost region of the
  contiguous chain. What the entries of the ancestors above that one are plays no role.
\<close>

theorem climb_outermost_contiguous:
  assumes "getRegionFor RI destBB = Some r" and "parent_chain RI r ps"
  shows "\<exists>k\<le>length ps.
           climb RI destBB (getRegionFor RI destBB) = Some (Some ((r # ps) ! k)) \<and>
           (\<forall>j<k. getEntry (region_at RI (ps ! j)) = destBB) \<and>
           (k < length ps \<longrightarrow> getEntry (region_at RI (ps ! k)) \<noteq> destBB)"
proof -
  let ?P = "\<lambda>p. getEntry (region_at RI p) = destBB"
  let ?k = "length (takeWhile ?P ps)"
  have "?k \<le> length ps"
    by (rule length_takeWhile_le)
  moreover have "climb RI destBB (getRegionFor RI destBB) = Some (Some ((r # ps) ! ?k))"
    unfolding assms(1) climb_chain [OF assms(2)] last_takeWhile_nth ..
  moreover have "\<forall>j<?k. ?P (ps ! j)"
  proof (intro allI impI)
    fix j assume j: "j < ?k"
    then have "takeWhile ?P ps ! j \<in> set (takeWhile ?P ps)"
      by simp
    then have "?P (takeWhile ?P ps ! j)"
      by (rule set_takeWhileD [THEN conjunct2])
    with j show "?P (ps ! j)"
      by (simp add: takeWhile_nth)
  qed
  moreover have "?k < length ps \<longrightarrow> \<not> ?P (ps ! ?k)"
    using nth_length_takeWhile [of ?P ps] by blast
  ultimately show ?thesis by blast
qed

text \<open>
  In the chain of four regions the climb for block \<open>7\<close> starts at region \<open>4\<close>, moves
  to region \<open>3\<close> and stops there, since region \<open>2\<close> has the entry \<open>5\<close>; that the
  top-level region \<open>1\<close> has the entry \<open>7\<close> again does not matter.
\<close>

theorem climb_outermost_contiguous_witness:
  "getRegionFor chain_RI 7 = Some 4 \<and> parent_chain chain_RI 4 [3, 2, 1] \<and>
   getEntry (region_at chain_RI 1) = 7 \<and>
   climb chain_RI 7 (getRegionFor chain_RI 7) = Some (Some 3)"
proof -
  have look: "getRegionFor chain_RI 7 = Some 4"
    by (simp add: chain_RI_def)
  obtain k where k: "k \<le> length [3, 2, 1 :: nat]"
      "climb chain_RI 7 (getRegionFor chain_RI 7) = Some (Some ((4 # [3, 2, 1]) ! k))"
      "\<forall>j<k. getEntry (region_at chain_RI ([3, 2, 1] ! j)) = 7"
      "k < length [3, 2, 1 :: nat] \<longrightarrow> getEntry (region_at chain_RI ([3, 2, 1] ! k)) \<noteq> 7"
    using climb_outermost_contiguous [OF look chain_RI_parents] by blast
  have "k \<noteq> 0"
  proof
    assume "k = 0"
    with k(4) show False by (simp add: chain_RI_def chain_region_def)
  qed
  moreover have "k < 2"
  proof (rule ccontr)
    assume "\<not> k < 2"
    then have "1 < k" by simp
    with k(3) have "getEntry (region_at chain_RI ([3, 2, 1] ! 1)) = 7" by blast
    then show False by (simp add: chain_RI_def chain_region_def)
  qed
  ultimately have "k = 1" by simp
  with k(2) have "climb chain_RI 7 (getRegionFor chain_RI 7) = Some (Some 3)" by simp
  with look chain_RI_parents show ?thesis
    by (simp add: chain_RI_def chain_region_def)
qed

subsection \<open>Edge classifier\<close>

lemma takeWhile_run_length:
  "k \<le> length ps \<Longrightarrow> \<forall>j<k. P (ps ! j) \<Longrightarrow> (k < length ps \<longrightarrow> \<not> P (ps ! k)) \<Longrightarrow>
   length (takeWhile P ps) = k"
proof (induction ps arbitrary: k)
  case Nil
  then show ?case by simp
next
  case (Cons p ps)
  show ?case
  proof (cases k)
    case 0
    with Cons.prems show ?thesis by simp
  next
    case (Suc k')
    with Cons.prems have "P p" by auto
    moreover have "length (takeWhile P ps) = k'"
    proof (rule Cons.IH)
      show "k' \<le> length ps" using Cons.prems(1) Suc by simp
      show "\<forall>j<k'. P (ps ! j)" using Cons.prems(2) Suc by auto
      show "k' < length ps \<longrightarrow> \<not> P (ps ! k')" using Cons.prems(3) Suc by simp
    qed
    ultimately show ?thesis using Suc by simp
  qed
qed

lemma nested_RI_parents:
  "parent_chain nested_RI 300 [200, 100]" "parent_chain nested_RI 200 [100]"
  by (intro parent_chain.intros; simp add: nested_RI_def nested_region_def)+

text \<open>
  Claim C1. When one of the two nodes is a sub-region node the classifier returns the
  empty string. For two block nodes, let \<open>r\<close> be the innermost region of the destination
  block, \<open>ps\<close> its ancestors from its parent to the top-level region, and \<open>k\<close> the
  number of steps of the climb: the first \<open>k\<close> ancestors have the destination block as
  their entry and the next one, when there is one, has not. With \<open>R'\<close> the region
  \<open>k\<close> steps above \<open>r\<close>, the classifier returns \<^verbatim>\<open>constraint=false\<close> when \<open>R'\<close> has the
  destination block as its entry and contains the source block, and the empty string in
  every other case.
\<close>

theorem getEdgeAttributes_classifies:
  "(isSubRegion srcNode \<or> isSubRegion destNode \<longrightarrow>
      getEdgeAttributes RI srcNode destNode = Some (Inr '''')) \<and>
   (getRegionFor RI destBB = Some r \<and> parent_chain RI r ps \<and> k \<le> length ps \<and>
    (\<forall>j<k. getEntry (region_at RI (ps ! j)) = destBB) \<and>
    (k < length ps \<longrightarrow> getEntry (region_at RI (ps ! k)) \<noteq> destBB) \<longrightarrow>
      getEdgeAttributes RI (BBNode srcBB) (BBNode destBB) =
        Some (Inr (if getEntry (region_at RI ((r # ps) ! k)) = destBB \<and>
                      contains (region_at RI ((r # ps) ! k)) srcBB
                   then ''constraint=false'' else '''')))"
proof (intro conjI impI)
  assume "isSubRegion srcNode \<or> isSubRegion destNode"
  then show "getEdgeAttributes RI srcNode destNode = Some (Inr '''')"
    by (cases srcNode; cases destNode) (simp_all add: getEdgeAttributes_def)
next
  let ?P = "\<lambda>p. getEntry (region_at RI p) = destBB"
  assume a: "getRegionFor RI destBB = Some r \<and> parent_chain RI r ps \<and> k \<le> length ps \<and>
    (\<forall>j<k. getEntry (region_at RI (ps ! j)) = destBB) \<and>
    (k < length ps \<longrightarrow> getEntry (region_at RI (ps ! k)) \<noteq> destBB)"
  then have "length (takeWhile ?P ps) = k"
    by (intro takeWhile_run_length) simp_all
  then have "last (r # takeWhile ?P ps) = (r # ps) ! k"
    by (simp only: last_takeWhile_nth)
  moreover from a have "climb RI destBB (getRegionFor RI destBB) =
      Some (Some (last (r # takeWhile ?P ps)))"
    by (simp add: climb_chain del: last.simps)
  ultimately have "climb RI destBB (getRegionFor RI destBB) = Some (Some ((r # ps) ! k))"
    by simp
  then show "getEdgeAttributes RI (BBNode srcBB) (BBNode destBB) =
        Some (Inr (if getEntry (region_at RI ((r # ps) ! k)) = destBB \<and>
                      contains (region_at RI ((r # ps) ! k)) srcBB
                   then ''constraint=false'' else ''''))"
    by (simp add: getEdgeAttributes_def)
qed

text \<open>
  In the function with two nested loops that share the header H (block \<open>1\<close>), the
  climb for the edge from block \<open>3\<close> to H starts at the inner loop region \<open>300\<close>,
  which does not contain block \<open>3\<close>, and takes one step to the outer loop region
  \<open>200\<close>, which does: the edge gets \<^verbatim>\<open>constraint=false\<close>. The forward edge from H to
  block \<open>3\<close> and an edge from a sub-region node get the empty string.
\<close>

theorem getEdgeAttributes_classifies_witness:
  "getRegionFor nested_RI 1 = Some 300 \<and> parent_chain nested_RI 300 [200, 100] \<and>
   getEntry (region_at nested_RI 200) = 1 \<and> getEntry (region_at nested_RI 100) \<noteq> 1 \<and>
   contains (region_at nested_RI 200) 3 \<and> \<not> contains (region_at nested_RI 300) 3 \<and>
   getEdgeAttributes nested_RI (BBNode 3) (BBNode 1) = Some (Inr ''constraint=false'') \<and>
   getEdgeAttributes nested_RI (BBNode 1) (BBNode 3) = Some (Inr '''') \<and>
   getEdgeAttributes nested_RI (SubRegionNode 200) (BBNode 1) = Some (Inr '''')"
proof -
  note defs = nested_RI_def nested_region_def
  have facts: "getRegionFor nested_RI 1 = Some 300" "getEntry (region_at nested_RI 200) = 1"
    "getEntry (region_at nested_RI 100) \<noteq> 1" "contains (region_at nested_RI 200) 3"
    "\<not> contains (region_at nested_RI 300) 3"
    by (simp_all add: defs)
  have e31: "getEdgeAttributes nested_RI (BBNode 3) (BBNode 1) = Some (Inr ''constraint=false'')"
    using getEdgeAttributes_classifies [of _ _ nested_RI 1 300 "[200, 100]" 1 3]
      nested_RI_parents(1)
    by (simp add: defs)
  have e13: "getEdgeAttributes nested_RI (BBNode 1) (BBNode 3) = Some (Inr '''')"
    using getEdgeAttributes_classifies [of _ _ nested_RI 3 200 "[100]" 0 1]
      nested_RI_parents(2)
    by (simp add: defs)
  have esub: "getEdgeAttributes nested_RI (SubRegionNode 200) (BBNode 1) = Some (Inr '''')"
    using getEdgeAttributes_classifies [of "SubRegionNode 200" "BBNode 1" nested_RI]
    by simp
  from facts nested_RI_parents(1) e31 e13 esub show ?thesis
    by blast
qed

text \<open>
  Claim C8. When the lookup of the innermost region gives a region for the destination
  block, the pointer that is dereferenced after the climb is not null: the classifier
  does not fault. When moreover the chain of parents of that region is finite, as in a
  region tree, the classifier returns a string.
\<close>

theorem getEdgeAttributes_returns:
  assumes "\<And>BB. destNode = BBNode BB \<Longrightarrow> \<exists>r. getRegionFor RI BB = Some r"
  shows "getEdgeAttributes RI srcNode destNode \<noteq> Some (Inl NullDereference) \<and>
         (\<forall>BB. destNode = BBNode BB \<longrightarrow>
            climb RI BB (getRegionFor RI BB) \<noteq> Some None) \<and>
         ((\<forall>BB r. destNode = BBNode BB \<and> getRegionFor RI BB = Some r \<longrightarrow>
             (\<exists>ps. parent_chain RI r ps)) \<longrightarrow>
          (\<exists>s. getEdgeAttributes RI srcNode destNode = Some (Inr s)))"
proof (intro conjI)
  have nn: "climb RI BB (getRegionFor RI BB) \<noteq> Some None" if "destNode = BBNode BB" for BB
    using assms [OF that] climb_not_null [of RI BB "getRegionFor RI BB" None] by auto
  then show "\<forall>BB. destNode = BBNode BB \<longrightarrow> climb RI BB (getRegionFor RI BB) \<noteq> Some None"
    by blast
  show "getEdgeAttributes RI srcNode destNode \<noteq> Some (Inl NullDereference)"
    using nn
    by (cases srcNode; cases destNode)
       (auto simp: getEdgeAttributes_def split: option.splits)
  show "(\<forall>BB r. destNode = BBNode BB \<and> getRegionFor RI BB = Some r \<longrightarrow>
             (\<exists>ps. parent_chain RI r ps)) \<longrightarrow>
          (\<exists>s. getEdgeAttributes RI srcNode destNode = Some (Inr s))"
  proof
    assume fin: "\<forall>BB r. destNode = BBNode BB \<and> getRegionFor RI BB = Some r \<longrightarrow>
             (\<exists>ps. parent_chain RI r ps)"
    show "\<exists>s. getEdgeAttributes RI srcNode destNode = Some (Inr s)"
    proof (cases destNode)
      case (BBNode BB)
      then obtain r where r: "getRegionFor RI BB = Some r"
        using assms by blast
      with fin BBNode obtain ps where "parent_chain RI r ps" by blast
      then have "\<exists>R. climb RI BB (getRegionFor RI BB) = Some (Some R)"
        by (simp add: r climb_chain)
      with BBNode show ?thesis
        by (cases srcNode) (auto simp: getEdgeAttributes_def)
    next
      case (SubRegionNode SR)
      then show ?thesis
        by (cases srcNode) (simp_all add: getEdgeAttributes_def)
    qed
  qed
qed

theorem getEdgeAttributes_returns_witness:
  "(\<exists>r. getRegionFor loop_RI 1 = Some r \<and> (\<exists>ps. parent_chain loop_RI r ps)) \<and>
   climb loop_RI 1 (getRegionFor loop_RI 1) \<noteq> Some None \<and>
   (\<exists>s. getEdgeAttributes loop_RI (BBNode 3) (BBNode 1) = Some (Inr s))"
proof -
  have look: "getRegionFor loop_RI 1 = Some 200"
    by (simp add: loop_RI_def)
  have pre: "\<exists>r. getRegionFor loop_RI BB = Some r" if "BBNode 1 = BBNode BB" for BB
    using that look by auto
  have fin: "\<forall>BB r. BBNode 1 = BBNode BB \<and> getRegionFor loop_RI BB = Some r \<longrightarrow>
             (\<exists>ps. parent_chain loop_RI r ps)"
    using look loop_RI_parents by auto
  from getEdgeAttributes_returns [of "BBNode 1" loop_RI "BBNode 3", OF pre] fin
  have "climb loop_RI 1 (getRegionFor loop_RI 1) \<noteq> Some None"
    and "\<exists>s. getEdgeAttributes loop_RI (BBNode 3) (BBNode 1) = Some (Inr s)"
    by blast+
  with look loop_RI_parents show ?thesis by blast
qed

subsection \<open>Runs of the cluster emitter\<close>

text \<open>The loop over the children returns exactly when every run of its body does.\<close>

lemma for_subregions_SomeD:
  "for_subregions Cs body = Some t \<Longrightarrow>
     \<exists>ss. list_all2 (\<lambda>C s. body C = Some s) Cs ss \<and> t = concat ss"
proof (induction Cs arbitrary: t)
  case Nil
  then show ?case by simp
next
  case (Cons C Cs)
  from Cons.prems obtain s u where su: "body C = Some s" "for_subregions Cs body = Some u"
    "t = s @ u"
    by (auto split: Option.bind_splits)
  from Cons.IH [OF su(2)] obtain ss where
    "list_all2 (\<lambda>C s. body C = Some s) Cs ss" "u = concat ss"
    by blast
  with su have "list_all2 (\<lambda>C s. body C = Some s) (C # Cs) (s # ss) \<and> t = concat (s # ss)"
    by simp
  then show ?case by blast
qed

lemma for_subregions_SomeI:
  "list_all2 (\<lambda>C s. body C = Some s) Cs ss \<Longrightarrow> for_subregions Cs body = Some (concat ss)"
  by (induction rule: list_all2_induct) simp_all

text \<open>On a finite region tree the recursion of the cluster emitter ends.\<close>

lemma printRegionCluster_returns:
  "finite_region_tree RI R \<Longrightarrow> \<exists>out. printRegionCluster GW RI only R depth = Some out"
proof (induction arbitrary: depth rule: finite_region_tree.induct)
  case (node RI R)
  have "\<exists>ss. list_all2 (\<lambda>C s. printRegionCluster GW RI only C (depth + 1) = Some s) Cs ss"
    if "set Cs \<subseteq> set (subregions (region_at RI R))" for Cs
    using that
  proof (induction Cs)
    case Nil
    show ?case by simp
  next
    case (Cons C Cs)
    then obtain ss where "list_all2 (\<lambda>C s. printRegionCluster GW RI only C (depth + 1) = Some s) Cs ss"
      by auto
    moreover obtain s where "printRegionCluster GW RI only C (depth + 1) = Some s"
      using node.IH [of C "depth + 1"] Cons.prems by auto
    ultimately show ?case
      by (auto simp: list_all2_Cons1)
  qed
  then obtain ss where
    "list_all2 (\<lambda>C s. printRegionCluster GW RI only C (depth + 1) = Some s)
       (subregions (region_at RI R)) ss"
    by blast
  then have "for_subregions (subregions (region_at RI R))
               (\<lambda>C. printRegionCluster GW RI only C (depth + 1)) = Some (concat ss)"
    by (rule for_subregions_SomeI)
  then show ?case
    by (subst printRegionCluster.simps) simp
qed

lemma loop_RI_tree: "finite_region_tree loop_RI 100"
proof (rule finite_region_tree.node)
  fix C assume "C \<in> set (subregions (region_at loop_RI 100))"
  then have "C = 200" by (simp add: loop_RI_def loop_top_def)
  moreover have "finite_region_tree loop_RI 200"
    by (rule finite_region_tree.node) (simp add: loop_RI_def loop_body_def)
  ultimately show "finite_region_tree loop_RI C" by simp
qed

text \<open>
  The relation \<open>emits\<close> is the graph of the cluster emitter: the emitter returns a
  text exactly when the relation holds of it.
\<close>

lemma printRegionCluster_emits:
  assumes "printRegionCluster GW RI only R depth = Some out"
  shows "emits GW RI only R depth out"
proof (rule printRegionCluster.raw_induct
    [where P = "\<lambda>GW RI only R depth out. emits GW RI only R depth out", OF _ assms])
  fix print' GW RI only R depth out
  assume IH: "\<And>GW RI only R depth out.
      print' GW RI only R depth = Some out \<Longrightarrow> emits GW RI only R depth out"
  assume "Option.bind
      (for_subregions (subregions (region_at RI R)) (\<lambda>C. print' GW RI only C (depth + 1)))
      (\<lambda>sub. Some (cluster_open GW RI only R depth @ sub @
                    cluster_blocks GW RI R depth @ cluster_close depth)) = Some out"
  then obtain sub where sub:
    "for_subregions (subregions (region_at RI R)) (\<lambda>C. print' GW RI only C (depth + 1)) = Some sub"
    "out = cluster_open GW RI only R depth @ sub @ cluster_blocks GW RI R depth @ cluster_close depth"
    by (auto split: Option.bind_splits)
  from for_subregions_SomeD [OF sub(1)] obtain subs where subs:
    "list_all2 (\<lambda>C s. print' GW RI only C (depth + 1) = Some s) (subregions (region_at RI R)) subs"
    "sub = concat subs"
    by blast
  from subs(1) have "list_all2 (\<lambda>C s. emits GW RI only C (depth + 1) s)
      (subregions (region_at RI R)) subs"
    by (rule list_all2_mono) (rule IH)
  then show "emits GW RI only R depth out"
    unfolding sub(2) subs(2) by (rule emits.cluster)
qed

lemma emits_printRegionCluster:
  "emits GW RI only R depth out \<Longrightarrow> printRegionCluster GW RI only R depth = Some out"
proof (induction rule: emits.induct)
  case (cluster GW RI only depth R subs)
  then have "list_all2 (\<lambda>C s. printRegionCluster GW RI only C (depth + 1) = Some s)
      (subregions (region_at RI R)) subs"
    by (rule list_all2_mono) simp
  then have "for_subregions (subregions (region_at RI R))
      (\<lambda>C. printRegionCluster GW RI only C (depth + 1)) = Some (concat subs)"
    by (rule for_subregions_SomeI)
  then show ?case
    by (subst printRegionCluster.simps) simp
qed

lemma emits_iff [code]:
  "emits GW RI only R depth out \<longleftrightarrow> printRegionCluster GW RI only R depth = Some out"
  by (blast intro: printRegionCluster_emits emits_printRegionCluster)

lemma printRegionCluster_unfold:
  assumes "printRegionCluster GW RI only R depth = Some out"
  shows "\<exists>subs. list_all2 (\<lambda>C s. printRegionCluster GW RI only C (depth + 1) = Some s)
             (subregions (region_at RI R)) subs \<and>
           out = cluster_open GW RI only R depth @ concat subs @
                 cluster_blocks GW RI R depth @ cluster_close depth"
proof -
  from assms obtain sub where sub:
    "for_subregions (subregions (region_at RI R))
       (\<lambda>C. printRegionCluster GW RI only C (depth + 1)) = Some sub"
    "out = cluster_open GW RI only R depth @ sub @ cluster_blocks GW RI R depth @ cluster_close depth"
    by (subst (asm) printRegionCluster.simps) (auto split: Option.bind_splits)
  from for_subregions_SomeD [OF sub(1)] sub(2) show ?thesis
    by blast
qed

text \<open>
  Claim C9. The cluster emitter returns for every region whose subtree of child regions
  is finite, whatever the depth, and so does the post-pass that calls it on the top-level
  region; the ancestor climb returns for every region whose chain of parents is finite,
  and for the null pointer.
\<close>

theorem rendering_terminates:
  "(finite_region_tree RI R \<longrightarrow>
      (\<exists>out. printRegionCluster GW RI onlySimpleRegions R depth = Some out)) \<and>
   (finite_region_tree RI (getTopLevelRegion RI) \<longrightarrow>
      (\<exists>doc. addCustomGraphFeatures GW RI onlySimpleRegions = Some doc)) \<and>
   (parent_chain RI r ps \<longrightarrow>
      (\<exists>R'. climb RI destBB (Some r) = Some (Some R'))) \<and>
   climb RI destBB None = Some None"
  using printRegionCluster_returns [of RI R GW onlySimpleRegions depth]
    printRegionCluster_returns [of RI "getTopLevelRegion RI" GW onlySimpleRegions 4]
  by (auto simp: addCustomGraphFeatures_def climb_chain climb_null)

theorem rendering_terminates_witness:
  "finite_region_tree loop_RI (getTopLevelRegion loop_RI) \<and>
   parent_chain loop_RI 200 [100] \<and>
   (\<exists>out. printRegionCluster dot_GW loop_RI False 100 4 = Some out) \<and>
   (\<exists>doc. addCustomGraphFeatures dot_GW loop_RI False = Some doc) \<and>
   (\<exists>R'. climb loop_RI 1 (Some 200) = Some (Some R'))"
proof -
  have top: "getTopLevelRegion loop_RI = 100" by (simp add: loop_RI_def)
  show ?thesis
    using rendering_terminates [of loop_RI 100 dot_GW False 4 200 "[100]" 1]
      loop_RI_tree loop_RI_parents
    by (simp add: top)
qed

subsection \<open>Style and colour\<close>

lemma unat_depth2_mod12: "unat ((d :: 32 word) * 2 mod 12) = (unat d * 2 mod 2 ^ 32) mod 12"
  by (simp add: unat_mod unat_word_ariths)

lemma unat_color_filled:
  "unat ((d :: 32 word) * 2 mod 12 + 1) = (unat d * 2 mod 2 ^ 32) mod 12 + 1"
proof -
  have "unat (d * 2 mod 12) < 12"
    by (simp add: unat_depth2_mod12)
  then have "unat (d * 2 mod 12 + 1) = unat (d * 2 mod 12) + 1"
    by (simp add: unat_word_ariths)
  then show ?thesis by (simp only: unat_depth2_mod12)
qed

lemma unat_color_solid:
  "unat ((d :: 32 word) * 2 mod 12 + 2) = (unat d * 2 mod 2 ^ 32) mod 12 + 2"
proof -
  have "unat (d * 2 mod 12) < 12"
    by (simp add: unat_depth2_mod12)
  then have "unat (d * 2 mod 12 + 2) = unat (d * 2 mod 12) + 2"
    by (simp add: unat_word_ariths)
  then show ?thesis by (simp only: unat_depth2_mod12)
qed

text \<open>Twice the depth is even, also after the wrap-around, and so is its rest modulo 12.\<close>

lemma even_mod12_le: "(n * 2 mod 2 ^ 32) mod 12 \<le> (10 :: nat)"
proof -
  have "(2::nat) dvd 2 ^ 32" by simp
  then have "(2::nat) dvd n * 2 mod 2 ^ 32"
    by (simp only: dvd_mod_iff) simp
  then obtain m where m: "n * 2 mod 2 ^ 32 = 2 * m" ..
  have "2 * (m mod 6) = (2 * m) mod (2 * 6)"
    by (rule mult_mod_right)
  then have "(2 * m) mod 12 = 2 * (m mod 6)"
    by simp
  moreover have "m mod 6 < 6"
    by simp
  ultimately have "(2 * m) mod 12 \<le> 10"
    by linarith
  then show ?thesis
    by (simp only: m)
qed

lemma cluster_style_ColorAssignment:
  "cluster_style GW RI onlySimpleRegions R depth =
     indent (2 * (depth + 1)) @ ''style = '' @
       fst (ColorAssignment onlySimpleRegions (isSimple (region_at RI R))
              (getDepth (region_at RI R))) @ '';\<newline>'' @
     indent (2 * (depth + 1)) @ ''color = '' @
       write_unsigned GW
         (snd (ColorAssignment onlySimpleRegions (isSimple (region_at RI R))
                 (getDepth (region_at RI R)))) @ ''\<newline>''"
  by (simp add: cluster_style_def ColorAssignment_def)

text \<open>
  Claim C2. The cluster of a region begins with its head and then the style and colour
  lines, which carry the pair that the colour assignment gives for the mode, the simple
  flag and the depth attribute of the region, and nothing else of the region: with the
  mode off or a simple region the style \<^verbatim>\<open>filled\<close> and the colour
  \<open>(depth * 2) mod 12 + 1\<close>, otherwise the style \<^verbatim>\<open>solid\<close> and the colour
  \<open>(depth * 2) mod 12 + 2\<close>. The arithmetic is the 32-bit unsigned arithmetic of the
  source; read as natural numbers the product wraps around at \<open>2 ^ 32\<close>, which plays no
  role for a depth below \<open>2 ^ 31\<close>.
\<close>

theorem cluster_style_by_mode_simple_depth:
  "(printRegionCluster GW RI onlySimpleRegions R depth = Some out \<longrightarrow>
      (\<exists>rest. out = cluster_head GW R depth @
                     cluster_style GW RI onlySimpleRegions R depth @ rest)) \<and>
   cluster_style GW RI onlySimpleRegions R depth =
     indent (2 * (depth + 1)) @ ''style = '' @
       fst (ColorAssignment onlySimpleRegions (isSimple (region_at RI R))
              (getDepth (region_at RI R))) @ '';\<newline>'' @
     indent (2 * (depth + 1)) @ ''color = '' @
       write_unsigned GW
         (snd (ColorAssignment onlySimpleRegions (isSimple (region_at RI R))
                 (getDepth (region_at RI R)))) @ ''\<newline>'' \<and>
   (\<not> simple_only \<or> simple \<longrightarrow>
      ColorAssignment simple_only simple d = (''filled'', d * 2 mod 12 + 1)) \<and>
   (simple_only \<and> \<not> simple \<longrightarrow>
      ColorAssignment simple_only simple d = (''solid'', d * 2 mod 12 + 2)) \<and>
   unat (d * 2 mod 12 + 1) = (unat d * 2 mod 2 ^ 32) mod 12 + 1 \<and>
   unat (d * 2 mod 12 + 2) = (unat d * 2 mod 2 ^ 32) mod 12 + 2 \<and>
   (unat d < 2 ^ 31 \<longrightarrow>
      unat (d * 2 mod 12 + 1) = (unat d * 2) mod 12 + 1 \<and>
      unat (d * 2 mod 12 + 2) = (unat d * 2) mod 12 + 2)"
proof (intro conjI impI)
  assume "printRegionCluster GW RI onlySimpleRegions R depth = Some out"
  from printRegionCluster_unfold [OF this]
  show "\<exists>rest. out = cluster_head GW R depth @
                     cluster_style GW RI onlySimpleRegions R depth @ rest"
    by (auto simp: cluster_open_def)
next
  show "cluster_style GW RI onlySimpleRegions R depth =
     indent (2 * (depth + 1)) @ ''style = '' @
       fst (ColorAssignment onlySimpleRegions (isSimple (region_at RI R))
              (getDepth (region_at RI R))) @ '';\<newline>'' @
     indent (2 * (depth + 1)) @ ''color = '' @
       write_unsigned GW
         (snd (ColorAssignment onlySimpleRegions (isSimple (region_at RI R))
                 (getDepth (region_at RI R)))) @ ''\<newline>''"
    by (rule cluster_style_ColorAssignment)
next
  assume "\<not> simple_only \<or> simple"
  then show "ColorAssignment simple_only simple d = (''filled'', d * 2 mod 12 + 1)"
    by (auto simp: ColorAssignment_def)
next
  assume "simple_only \<and> \<not> simple"
  then show "ColorAssignment simple_only simple d = (''solid'', d * 2 mod 12 + 2)"
    by (simp add: ColorAssignment_def)
next
  show "unat (d * 2 mod 12 + 1) = (unat d * 2 mod 2 ^ 32) mod 12 + 1"
    by (rule unat_color_filled)
next
  show "unat (d * 2 mod 12 + 2) = (unat d * 2 mod 2 ^ 32) mod 12 + 2"
    by (rule unat_color_solid)
next
  assume "unat d < 2 ^ 31"
  then have "unat d * 2 mod 2 ^ 32 = unat d * 2"
    by simp
  then show "unat (d * 2 mod 12 + 1) = (unat d * 2) mod 12 + 1"
    by (simp only: unat_color_filled)
next
  assume "unat d < 2 ^ 31"
  then have "unat d * 2 mod 2 ^ 32 = unat d * 2"
    by simp
  then show "unat (d * 2 mod 12 + 2) = (unat d * 2) mod 12 + 2"
    by (simp only: unat_color_solid)
qed

theorem cluster_style_by_mode_simple_depth_witness:
  "(\<exists>out rest. printRegionCluster dot_GW loop_RI True 200 5 = Some out \<and>
      out = cluster_head dot_GW 200 5 @ cluster_style dot_GW loop_RI True 200 5 @ rest) \<and>
   ColorAssignment True True 1 = (''filled'', 3) \<and>
   ColorAssignment False False 7 = (''filled'', 3) \<and>
   ColorAssignment True False 7 = (''solid'', 4) \<and>
   unat (7 :: 32 word) < 2 ^ 31 \<and> unat ((7 :: 32 word) * 2 mod 12 + 2) = 4"
proof -
  have tree: "finite_region_tree loop_RI 200"
    by (rule finite_region_tree.node) (simp add: loop_RI_def loop_body_def)
  obtain out where out: "printRegionCluster dot_GW loop_RI True 200 5 = Some out"
    using printRegionCluster_returns [OF tree] by blast
  have small: "unat (7 :: 32 word) < 2 ^ 31"
    by simp
  note inst = cluster_style_by_mode_simple_depth
  from inst [of dot_GW loop_RI True 200 5 out] out
  have "\<exists>rest. out = cluster_head dot_GW 200 5 @ cluster_style dot_GW loop_RI True 200 5 @ rest"
    by blast
  moreover from inst [of _ _ _ _ _ _ True True 1]
  have "ColorAssignment True True 1 = (''filled'', 3)"
    by simp
  moreover from inst [of _ _ _ _ _ _ False False 7]
  have "ColorAssignment False False 7 = (''filled'', 3)"
    by simp
  moreover from inst [of _ _ _ _ _ _ True False 7] small
  have "ColorAssignment True False 7 = (''solid'', 4)"
    and "unat ((7 :: 32 word) * 2 mod 12 + 2) = 4"
    by simp_all
  ultimately show ?thesis
    using out small by blast
qed

text \<open>
  Claim C6. The colour index of the assignment lies between 1 and 12 for every mode, flag
  and depth, and the style is one of the two fixed words. The style and colour lines are
  a function of the mode, the simple flag and the depth: two regions, also of different
  analyses, that agree on the flag and the depth get the same lines in the same mode.
\<close>

theorem color_assignment_deterministic_in_range:
  "1 \<le> unat (snd (ColorAssignment simple_only simple d)) \<and>
   unat (snd (ColorAssignment simple_only simple d)) \<le> 12 \<and>
   fst (ColorAssignment simple_only simple d) \<in> {''filled'', ''solid''} \<and>
   (isSimple (region_at RI R) = isSimple (region_at RI' R') \<and>
    getDepth (region_at RI R) = getDepth (region_at RI' R') \<longrightarrow>
      cluster_style GW RI onlySimpleRegions R depth =
      cluster_style GW RI' onlySimpleRegions R' depth) \<and>
   (\<exists>style c.
      (style, c) = ColorAssignment onlySimpleRegions (isSimple (region_at RI R))
                     (getDepth (region_at RI R)) \<and>
      1 \<le> unat c \<and> unat c \<le> 12 \<and>
      cluster_style GW RI onlySimpleRegions R depth =
        indent (2 * (depth + 1)) @ ''style = '' @ style @ '';\<newline>'' @
        indent (2 * (depth + 1)) @ ''color = '' @ write_unsigned GW c @ ''\<newline>'')"
proof -
  have range: "1 \<le> unat (snd (ColorAssignment m s e)) \<and>
      unat (snd (ColorAssignment m s e)) \<le> 12" for m s e
    using even_mod12_le [of "unat e"]
    by (simp add: ColorAssignment_def unat_color_filled unat_color_solid)
  have "fst (ColorAssignment simple_only simple d) \<in> {''filled'', ''solid''}"
    by (simp add: ColorAssignment_def)
  moreover have "cluster_style GW RI onlySimpleRegions R depth =
      cluster_style GW RI' onlySimpleRegions R' depth"
    if "isSimple (region_at RI R) = isSimple (region_at RI' R') \<and>
        getDepth (region_at RI R) = getDepth (region_at RI' R')"
    using that by (simp add: cluster_style_ColorAssignment)
  moreover have "\<exists>style c.
      (style, c) = ColorAssignment onlySimpleRegions (isSimple (region_at RI R))
                     (getDepth (region_at RI R)) \<and>
      1 \<le> unat c \<and> unat c \<le> 12 \<and>
      cluster_style GW RI onlySimpleRegions R depth =
        indent (2 * (depth + 1)) @ ''style = '' @ style @ '';\<newline>'' @
        indent (2 * (depth + 1)) @ ''color = '' @ write_unsigned GW c @ ''\<newline>''"
    using range [of onlySimpleRegions "isSimple (region_at RI R)" "getDepth (region_at RI R)"]
      cluster_style_ColorAssignment [of GW RI onlySimpleRegions R depth]
    by (metis prod.collapse)
  ultimately show ?thesis
    using range by blast
qed

theorem color_assignment_deterministic_in_range_witness:
  "isSimple (region_at chain_RI 1) = isSimple (region_at loop_RI 100) \<and>
   getDepth (region_at chain_RI 1) = getDepth (region_at loop_RI 100) \<and>
   cluster_style dot_GW chain_RI True 1 4 = cluster_style dot_GW loop_RI True 100 4 \<and>
   unat (snd (ColorAssignment True False 5)) = 12 \<and>
   unat (snd (ColorAssignment True False 4294967295)) = 4"
proof -
  have same: "isSimple (region_at chain_RI 1) = isSimple (region_at loop_RI 100) \<and>
      getDepth (region_at chain_RI 1) = getDepth (region_at loop_RI 100)"
    by (simp add: chain_RI_def chain_region_def loop_RI_def loop_top_def)
  with color_assignment_deterministic_in_range [of _ _ _ chain_RI 1 loop_RI 100 dot_GW True 4]
  have "cluster_style dot_GW chain_RI True 1 4 = cluster_style dot_GW loop_RI True 100 4"
    by blast
  moreover have "unat (snd (ColorAssignment True False 5)) = 12"
    by (simp add: ColorAssignment_def)
  moreover have "unat (snd (ColorAssignment True False 4294967295)) = 4"
    by (simp add: ColorAssignment_def)
  ultimately show ?thesis
    using same by (simp add: chain_RI_def chain_region_def loop_RI_def loop_top_def)
qed

subsection \<open>Bracketing\<close>

lemma brace_scan_append:
  "brace_scan n (a @ b) = Option.bind (brace_scan n a) (\<lambda>m. brace_scan m b)"
  by (induction a arbitrary: n) (auto split: nat.splits)

lemma brace_scan_brace_free: "brace_free s \<Longrightarrow> brace_scan n s = Some n"
  by (induction s arbitrary: n) (auto simp: brace_free_def)

lemma brace_free_append [simp]: "brace_free (a @ b) \<longleftrightarrow> brace_free a \<and> brace_free b"
  by (auto simp: brace_free_def)

lemma brace_free_Nil [simp]: "brace_free []"
  by (simp add: brace_free_def)

lemma brace_free_Cons [simp]:
  "brace_free (c # s) \<longleftrightarrow> c \<noteq> CHR ''{'' \<and> c \<noteq> CHR ''}'' \<and> brace_free s"
  by (auto simp: brace_free_def)

lemma brace_free_indent [simp]: "brace_free (indent k)"
  by (simp add: brace_free_def indent_def)

lemma brace_scan_free_append: "brace_free a \<Longrightarrow> brace_scan n (a @ b) = brace_scan n b"
  by (simp add: brace_scan_append brace_scan_brace_free)

lemma brace_scan_concat:
  "(\<And>s. s \<in> set ss \<Longrightarrow> \<forall>n. brace_scan n s = Some n) \<Longrightarrow> brace_scan n (concat ss) = Some n"
  by (induction ss) (simp_all add: brace_scan_append)

lemma brace_scan_cluster_open:
  assumes "brace_free (write_ptr GW R)" and "\<And>w. brace_free (write_unsigned GW w)"
  shows "brace_scan n (cluster_open GW RI only R depth) = Some (Suc n)"
proof -
  let ?A = "indent (2 * depth) @ ''subgraph cluster_'' @ write_ptr GW R @ '' ''"
  let ?B = "''\<newline>'' @ indent (2 * (depth + 1)) @ ''label = \"\";\<newline>'' @
            cluster_style GW RI only R depth"
  have A: "brace_free ?A"
    using assms(1) by simp
  have B: "brace_free ?B"
    using assms(2) by (simp add: cluster_style_def)
  have "cluster_open GW RI only R depth = ?A @ CHR ''{'' # ?B"
    by (simp add: cluster_open_def cluster_head_def)
  then have "brace_scan n (cluster_open GW RI only R depth) = brace_scan n (CHR ''{'' # ?B)"
    by (simp only: brace_scan_free_append [OF A])
  also have "\<dots> = brace_scan (Suc n) ?B"
    by simp
  also have "\<dots> = Some (Suc n)"
    by (rule brace_scan_brace_free [OF B])
  finally show ?thesis .
qed

lemma brace_scan_cluster_blocks:
  assumes "\<And>p. brace_free (write_ptr GW p)"
  shows "brace_scan n (cluster_blocks GW RI R depth) = Some n"
proof -
  have "brace_free (node_line GW RI depth BB)" for BB
    using assms by (simp add: node_line_def)
  then show ?thesis
    unfolding cluster_blocks_def
    by (intro brace_scan_concat) (auto simp: brace_scan_brace_free)
qed

lemma brace_scan_cluster_close: "brace_scan (Suc n) (cluster_close depth) = Some n"
proof -
  have "brace_scan (Suc n) (cluster_close depth) = brace_scan (Suc n) ''}\<newline>''"
    unfolding cluster_close_def by (rule brace_scan_free_append) simp
  then show ?thesis by simp
qed

text \<open>A text that the emitter writes closes exactly the braces it opens.\<close>

lemma emits_balanced:
  assumes "emits GW RI only R depth out"
    and "\<And>p. brace_free (write_ptr GW p)" and "\<And>w. brace_free (write_unsigned GW w)"
  shows "brace_scan n out = Some n"
  using assms
proof (induction arbitrary: n rule: emits.induct)
  case (cluster GW RI only depth R subs)
  have "\<forall>n. brace_scan n s = Some n" if "s \<in> set subs" for s
  proof -
    from that obtain i where "i < length subs" "s = subs ! i"
      by (auto simp: in_set_conv_nth)
    with cluster.IH cluster.prems show ?thesis
      by (auto simp: list_all2_conv_all_nth)
  qed
  then have subs: "brace_scan (Suc n) (concat subs) = Some (Suc n)"
    by (rule brace_scan_concat)
  have "brace_scan n (cluster_open GW RI only R depth) = Some (Suc n)"
    by (rule brace_scan_cluster_open) (rule cluster.prems)+
  moreover have "brace_scan (Suc n) (cluster_blocks GW RI R depth) = Some (Suc n)"
    by (rule brace_scan_cluster_blocks) (rule cluster.prems)
  ultimately show ?case
    using subs by (simp add: brace_scan_append brace_scan_cluster_close)
qed

lemma write_base_digits: "set (write_base b n) \<subseteq> set hex_digits"
proof (induction b n rule: write_base.induct)
  case (1 b n)
  have "hex_digits ! (k mod 16) \<in> set hex_digits" for k
    by (rule nth_mem) (simp add: hex_digits_def)
  with 1 show ?case
    by (subst write_base.simps) auto
qed

lemma brace_free_write_base: "brace_free (write_base b n)"
  using write_base_digits [of b n] by (auto simp: brace_free_def hex_digits_def)

lemma brace_free_dot_GW: "brace_free (write_ptr dot_GW p)" "brace_free (write_unsigned dot_GW w)"
  by (simp_all add: dot_GW_def brace_free_write_base)

subsection \<open>Cluster documents\<close>

text \<open>The text the emitter writes for a region, piece by piece, is the text of a cluster.\<close>

lemma emitted_text:
  "cluster_open GW RI only R depth @ concat (map (render_cluster GW RI only (depth + 1)) cs) @
     cluster_blocks GW RI R depth @ cluster_close depth =
   render_cluster GW RI only depth
     (Cluster R cs (filter (\<lambda>BB. getRegionFor RI BB = Some R) (blocks (region_at RI R))))"
proof -
  have "node_line GW RI depth =
      (\<lambda>BB. replicate (unat (2 * (depth + 1))) (CHR '' '') @ ''Node'' @
             write_ptr GW (getBBNode RI BB) @ '';\<newline>'')"
    by (rule ext) (simp add: node_line_def indent_def)
  then show ?thesis
    by (simp add: cluster_open_def cluster_head_def cluster_style_ColorAssignment
        cluster_blocks_def owned_blocks_def cluster_close_def indent_def)
qed

text \<open>For a cluster that mirrors the region tree the emitter returns, with the text of the cluster.\<close>

lemma cluster_tree_of_printRegionCluster:
  "cluster_tree_of RI R c \<Longrightarrow>
   printRegionCluster GW RI only R depth = Some (render_cluster GW RI only depth c)"
proof (induction arbitrary: depth rule: cluster_tree_of.induct)
  case (mirror RI R cs)
  then have "list_all2 (\<lambda>C c. printRegionCluster GW RI only C (depth + 1) =
      Some (render_cluster GW RI only (depth + 1) c)) (subregions (region_at RI R)) cs"
    by (rule list_all2_mono) simp
  then have "list_all2 (\<lambda>C s. printRegionCluster GW RI only C (depth + 1) = Some s)
      (subregions (region_at RI R)) (map (render_cluster GW RI only (depth + 1)) cs)"
    by (simp add: list_all2_map2)
  then have "for_subregions (subregions (region_at RI R))
      (\<lambda>C. printRegionCluster GW RI only C (depth + 1)) =
      Some (concat (map (render_cluster GW RI only (depth + 1)) cs))"
    by (rule for_subregions_SomeI)
  then show ?case
    by (subst printRegionCluster.simps) (simp only: Option.bind.simps emitted_text)
qed

lemma list_all2_exists:
  "(\<And>C. C \<in> set Cs \<Longrightarrow> \<exists>c. Q C c) \<Longrightarrow> \<exists>cs. list_all2 Q Cs cs"
proof (induction Cs)
  case Nil
  show ?case by simp
next
  case (Cons C Cs)
  then obtain c cs where "Q C c" "list_all2 Q Cs cs"
    by (meson list.set_intros)
  then have "list_all2 Q (C # Cs) (c # cs)" by simp
  then show ?case ..
qed

text \<open>A finite region tree has a cluster that mirrors it, and so has every region on which the emitter returns.\<close>

lemma finite_region_tree_cluster:
  "finite_region_tree RI R \<Longrightarrow> \<exists>c. cluster_tree_of RI R c"
proof (induction rule: finite_region_tree.induct)
  case (node RI R)
  from list_all2_exists [of "subregions (region_at RI R)" "cluster_tree_of RI"] node.IH
  obtain cs where "list_all2 (cluster_tree_of RI) (subregions (region_at RI R)) cs"
    by blast
  then show ?case
    by (blast intro: cluster_tree_of.mirror)
qed

lemma emits_cluster_tree:
  "emits GW RI only R depth out \<Longrightarrow> \<exists>c. cluster_tree_of RI R c"
proof (induction rule: emits.induct)
  case (cluster GW RI only depth R subs)
  have "\<exists>c. cluster_tree_of RI C c" if "C \<in> set (subregions (region_at RI R))" for C
  proof -
    from that obtain i where "i < length (subregions (region_at RI R))"
      "C = subregions (region_at RI R) ! i"
      by (auto simp: in_set_conv_nth)
    with cluster.IH show ?thesis
      by (auto simp: list_all2_conv_all_nth)
  qed
  from list_all2_exists [of "subregions (region_at RI R)" "cluster_tree_of RI", OF this]
  obtain cs where "list_all2 (cluster_tree_of RI) (subregions (region_at RI R)) cs"
    by blast
  then show ?case
    by (blast intro: cluster_tree_of.mirror)
qed

lemma cluster_tree_of_id_nodes:
  "cluster_tree_of RI R c \<Longrightarrow>
   cluster_id c = R \<and>
   cluster_nodes c = filter (\<lambda>BB. getRegionFor RI BB = Some R) (blocks (region_at RI R))"
  by (erule cluster_tree_of.cases) simp

text \<open>Every cluster nested in a cluster that mirrors the region tree mirrors the tree of its own region.\<close>

lemma cluster_tree_of_clusters:
  "cluster_tree_of RI R c \<Longrightarrow> c' \<in> set (clusters_of c) \<Longrightarrow>
   cluster_tree_of RI (cluster_id c') c'"
proof (induction arbitrary: c' rule: cluster_tree_of.induct)
  case (mirror RI R cs)
  let ?c = "Cluster R cs (filter (\<lambda>BB. getRegionFor RI BB = Some R) (blocks (region_at RI R)))"
  from mirror.prems consider "c' = ?c" | c where "c \<in> set cs" "c' \<in> set (clusters_of c)"
    by auto
  then show ?case
  proof cases
    case 1
    from mirror.IH have "list_all2 (cluster_tree_of RI) (subregions (region_at RI R)) cs"
      by (rule list_all2_mono) simp
    then have "cluster_tree_of RI R ?c"
      by (rule cluster_tree_of.mirror)
    with 1 show ?thesis by simp
  next
    case 2
    from 2(1) obtain i where "i < length cs" "c = cs ! i"
      by (auto simp: in_set_conv_nth)
    with mirror.IH 2(2) show ?thesis
      by (auto simp: list_all2_conv_all_nth)
  qed
qed

lemma cluster_tree_of_balanced:
  assumes "cluster_tree_of RI R c"
    and "\<And>p. brace_free (write_ptr GW p)" and "\<And>w. brace_free (write_unsigned GW w)"
  shows "brace_scan n (render_cluster GW RI only depth c) = Some n"
proof -
  from assms(1) have "printRegionCluster GW RI only R depth =
      Some (render_cluster GW RI only depth c)"
    by (rule cluster_tree_of_printRegionCluster)
  then have "emits GW RI only R depth (render_cluster GW RI only depth c)"
    by (rule printRegionCluster_emits)
  then show ?thesis
    using assms(2,3) by (rule emits_balanced)
qed

lemma nested_RI_tree: "finite_region_tree nested_RI 100"
proof -
  have t300: "finite_region_tree nested_RI 300"
    by (rule finite_region_tree.node) (simp add: nested_RI_def nested_region_def)
  have t200: "finite_region_tree nested_RI 200"
  proof (rule finite_region_tree.node)
    fix C assume "C \<in> set (subregions (region_at nested_RI 200))"
    then have "C = 300" by (simp add: nested_RI_def nested_region_def)
    with t300 show "finite_region_tree nested_RI C" by simp
  qed
  show ?thesis
  proof (rule finite_region_tree.node)
    fix C assume "C \<in> set (subregions (region_at nested_RI 100))"
    then have "C = 200" by (simp add: nested_RI_def nested_region_def)
    with t200 show "finite_region_tree nested_RI C" by simp
  qed
qed

lemma nested_RI_doc: "cluster_tree_of nested_RI 100 nested_doc"
proof -
  have c300: "cluster_tree_of nested_RI 300 (Cluster 300 [] [1, 2])"
    using cluster_tree_of.mirror [of nested_RI 300 "[]"]
    by (simp add: nested_RI_def nested_region_def)
  have c200: "cluster_tree_of nested_RI 200 (Cluster 200 [Cluster 300 [] [1, 2]] [3])"
    using cluster_tree_of.mirror [of nested_RI 200 "[Cluster 300 [] [1, 2]]"] c300
    by (simp add: nested_RI_def nested_region_def)
  show ?thesis
    using cluster_tree_of.mirror [of nested_RI 100 "[Cluster 200 [Cluster 300 [] [1, 2]] [3]]"] c200
    by (simp add: nested_RI_def nested_region_def nested_doc_def)
qed

lemma nested_RI_text_simple_only:
  \<open>render_cluster dot_GW nested_RI True 4 nested_doc =
       ''        subgraph cluster_0x64 {\<newline>'' @
       ''          label = "";\<newline>'' @
       ''          style = solid;\<newline>'' @
       ''          color = 2\<newline>'' @
       ''          subgraph cluster_0xc8 {\<newline>'' @
       ''            label = "";\<newline>'' @
       ''            style = solid;\<newline>'' @
       ''            color = 4\<newline>'' @
       ''            subgraph cluster_0x12c {\<newline>'' @
       ''              label = "";\<newline>'' @
       ''              style = filled;\<newline>'' @
       ''              color = 5\<newline>'' @
       ''              Node0x3e9;\<newline>'' @
       ''              Node0x3ea;\<newline>'' @
       ''            }\<newline>'' @
       ''            Node0x3eb;\<newline>'' @
       ''          }\<newline>'' @
       ''          Node0x3e8;\<newline>'' @
       ''          Node0x3ec;\<newline>'' @
       ''        }\<newline>''\<close>
  by code_simp

text \<open>
  Claim C3. A finite region tree below \<open>R\<close> has a cluster that mirrors it, with one
  nested cluster per child region, in order. For such a cluster the emitter returns, and
  the text it writes is the text of the cluster: the \<^verbatim>\<open>subgraph\<close> line that opens it, its
  label, style and colour, then the complete texts of the nested clusters, each opened
  and closed in turn, then the \<^verbatim>\<open>Node\<close> lines of the blocks the region owns, then the
  closing brace. Every text the emitter returns is of this form. When the stream writes
  addresses and numbers without braces, the braces of the text match, and so do the
  braces of the text of every cluster nested in it at any depth: read from any number of
  open braces, the text of a cluster never closes a brace it has not opened and ends with
  the same number open, so no two clusters overlap in part.
\<close>

theorem printRegionCluster_nested:
  "(finite_region_tree RI R \<longrightarrow> (\<exists>c. cluster_tree_of RI R c)) \<and>
   (cluster_tree_of RI R c \<longrightarrow>
      printRegionCluster GW RI onlySimpleRegions R depth =
        Some (render_cluster GW RI onlySimpleRegions depth c)) \<and>
   (printRegionCluster GW RI onlySimpleRegions R depth = Some out \<longrightarrow>
      (\<exists>c. cluster_tree_of RI R c \<and> out = render_cluster GW RI onlySimpleRegions depth c)) \<and>
   (cluster_tree_of RI R c \<and>
    (\<forall>p. brace_free (write_ptr GW p)) \<and> (\<forall>w. brace_free (write_unsigned GW w)) \<longrightarrow>
      well_bracketed (render_cluster GW RI onlySimpleRegions depth c) \<and>
      (\<forall>c'\<in>set (clusters_of c). \<forall>d n.
         brace_scan n (render_cluster GW RI onlySimpleRegions d c') = Some n))"
proof (intro conjI impI)
  assume "finite_region_tree RI R"
  then show "\<exists>c. cluster_tree_of RI R c"
    by (rule finite_region_tree_cluster)
next
  assume "cluster_tree_of RI R c"
  then show "printRegionCluster GW RI onlySimpleRegions R depth =
      Some (render_cluster GW RI onlySimpleRegions depth c)"
    by (rule cluster_tree_of_printRegionCluster)
next
  assume out: "printRegionCluster GW RI onlySimpleRegions R depth = Some out"
  then have "emits GW RI onlySimpleRegions R depth out"
    by (rule printRegionCluster_emits)
  then obtain c where c: "cluster_tree_of RI R c"
    using emits_cluster_tree by blast
  from cluster_tree_of_printRegionCluster [OF c, of GW onlySimpleRegions depth] out
  have "out = render_cluster GW RI onlySimpleRegions depth c"
    by simp
  with c show "\<exists>c. cluster_tree_of RI R c \<and> out = render_cluster GW RI onlySimpleRegions depth c"
    by blast
next
  assume a: "cluster_tree_of RI R c \<and>
    (\<forall>p. brace_free (write_ptr GW p)) \<and> (\<forall>w. brace_free (write_unsigned GW w))"
  then have "brace_scan 0 (render_cluster GW RI onlySimpleRegions depth c) = Some 0"
    by (intro cluster_tree_of_balanced [of RI R]) simp_all
  then show "well_bracketed (render_cluster GW RI onlySimpleRegions depth c)"
    by (simp add: well_bracketed_def)
next
  assume a: "cluster_tree_of RI R c \<and>
    (\<forall>p. brace_free (write_ptr GW p)) \<and> (\<forall>w. brace_free (write_unsigned GW w))"
  show "\<forall>c'\<in>set (clusters_of c). \<forall>d n.
      brace_scan n (render_cluster GW RI onlySimpleRegions d c') = Some n"
  proof (intro ballI allI)
    fix c' d n
    assume "c' \<in> set (clusters_of c)"
    with a have "cluster_tree_of RI (cluster_id c') c'"
      by (blast intro: cluster_tree_of_clusters)
    then show "brace_scan n (render_cluster GW RI onlySimpleRegions d c') = Some n"
      using a by (intro cluster_tree_of_balanced [of RI "cluster_id c'"]) simp_all
  qed
qed

text \<open>
  The text for the two nested loops, in the mode that fills simple regions only and at
  depth 4: three clusters, each closed before the block lines of the enclosing one.
\<close>

theorem printRegionCluster_nested_witness:
  \<open>finite_region_tree nested_RI 100 \<and> cluster_tree_of nested_RI 100 nested_doc \<and>
   (\<forall>p. brace_free (write_ptr dot_GW p)) \<and> (\<forall>w. brace_free (write_unsigned dot_GW w)) \<and>
   printRegionCluster dot_GW nested_RI True 100 4 = Some (
       ''        subgraph cluster_0x64 {\<newline>'' @
       ''          label = "";\<newline>'' @
       ''          style = solid;\<newline>'' @
       ''          color = 2\<newline>'' @
       ''          subgraph cluster_0xc8 {\<newline>'' @
       ''            label = "";\<newline>'' @
       ''            style = solid;\<newline>'' @
       ''            color = 4\<newline>'' @
       ''            subgraph cluster_0x12c {\<newline>'' @
       ''              label = "";\<newline>'' @
       ''              style = filled;\<newline>'' @
       ''              color = 5\<newline>'' @
       ''              Node0x3e9;\<newline>'' @
       ''              Node0x3ea;\<newline>'' @
       ''            }\<newline>'' @
       ''            Node0x3eb;\<newline>'' @
       ''          }\<newline>'' @
       ''          Node0x3e8;\<newline>'' @
       ''          Node0x3ec;\<newline>'' @
       ''        }\<newline>'') \<and>
   well_bracketed (
       ''        subgraph cluster_0x64 {\<newline>'' @
       ''          label = "";\<newline>'' @
       ''          style = solid;\<newline>'' @
       ''          color = 2\<newline>'' @
       ''          subgraph cluster_0xc8 {\<newline>'' @
       ''            label = "";\<newline>'' @
       ''            style = solid;\<newline>'' @
       ''            color = 4\<newline>'' @
       ''            subgraph cluster_0x12c {\<newline>'' @
       ''              label = "";\<newline>'' @
       ''              style = filled;\<newline>'' @
       ''              color = 5\<newline>'' @
       ''              Node0x3e9;\<newline>'' @
       ''              Node0x3ea;\<newline>'' @
       ''            }\<newline>'' @
       ''            Node0x3eb;\<newline>'' @
       ''          }\<newline>'' @
       ''          Node0x3e8;\<newline>'' @
       ''          Node0x3ec;\<newline>'' @
       ''        }\<newline>'')\<close>
proof -
  let ?text = "render_cluster dot_GW nested_RI True 4 nested_doc"
  note nested = printRegionCluster_nested [of nested_RI 100 nested_doc dot_GW True 4]
  have free: "(\<forall>p. brace_free (write_ptr dot_GW p)) \<and> (\<forall>w. brace_free (write_unsigned dot_GW w))"
    using brace_free_dot_GW by blast
  from nested have "cluster_tree_of nested_RI 100 nested_doc \<longrightarrow>
      printRegionCluster dot_GW nested_RI True 100 4 = Some ?text"
    by blast
  with nested_RI_doc have emitted: "printRegionCluster dot_GW nested_RI True 100 4 = Some ?text"
    by (rule rev_mp)
  from nested have "cluster_tree_of nested_RI 100 nested_doc \<and>
      (\<forall>p. brace_free (write_ptr dot_GW p)) \<and> (\<forall>w. brace_free (write_unsigned dot_GW w)) \<longrightarrow>
      well_bracketed ?text \<and>
      (\<forall>c'\<in>set (clusters_of nested_doc). \<forall>d n.
         brace_scan n (render_cluster dot_GW nested_RI True d c') = Some n)"
    by blast
  with nested_RI_doc free have balanced: "well_bracketed ?text"
    by blast
  have "finite_region_tree nested_RI 100 \<and> cluster_tree_of nested_RI 100 nested_doc \<and>
      (\<forall>p. brace_free (write_ptr dot_GW p)) \<and> (\<forall>w. brace_free (write_unsigned dot_GW w)) \<and>
      printRegionCluster dot_GW nested_RI True 100 4 = Some ?text \<and> well_bracketed ?text"
    using nested_RI_tree nested_RI_doc free emitted balanced by blast
  then show ?thesis
    unfolding nested_RI_text_simple_only .
qed

subsection \<open>Owned blocks\<close>

lemma length_filter_distinct_map:
  "distinct (map f xs) \<Longrightarrow> y \<in> f ` set xs \<Longrightarrow> length (filter (\<lambda>x. f x = y) xs) = 1"
proof (induction xs)
  case Nil
  then show ?case by simp
next
  case (Cons x xs)
  show ?case
  proof (cases "f x = y")
    case True
    with Cons.prems(1) have "y \<notin> f ` set xs"
      by auto
    then have "filter (\<lambda>x. f x = y) xs = []"
      unfolding filter_empty_conv by blast
    with True show ?thesis by simp
  next
    case False
    with Cons show ?thesis by auto
  qed
qed

lemma nested_RI_text_all:
  \<open>render_cluster dot_GW nested_RI False 4 nested_doc =
       ''        subgraph cluster_0x64 {\<newline>'' @
       ''          label = "";\<newline>'' @
       ''          style = filled;\<newline>'' @
       ''          color = 1\<newline>'' @
       ''          subgraph cluster_0xc8 {\<newline>'' @
       ''            label = "";\<newline>'' @
       ''            style = filled;\<newline>'' @
       ''            color = 3\<newline>'' @
       ''            subgraph cluster_0x12c {\<newline>'' @
       ''              label = "";\<newline>'' @
       ''              style = filled;\<newline>'' @
       ''              color = 5\<newline>'' @
       ''              Node0x3e9;\<newline>'' @
       ''              Node0x3ea;\<newline>'' @
       ''            }\<newline>'' @
       ''            Node0x3eb;\<newline>'' @
       ''          }\<newline>'' @
       ''          Node0x3e8;\<newline>'' @
       ''          Node0x3ec;\<newline>'' @
       ''        }\<newline>''\<close>
  by code_simp

text \<open>
  Claim C4. Let \<open>doc\<close> be the cluster that mirrors the region tree under the top-level
  region, and assume that no region has two clusters in it, as in a tree, and that every
  block of the function has an innermost region, which has a cluster in \<open>doc\<close> and whose
  block iterator enumerates the block. Then the post-pass returns and writes the palette
  line and the text of \<open>doc\<close>, in which the \<^verbatim>\<open>Node\<close> lines written directly in a cluster
  are those of the blocks the cluster references. A block of the function is referenced
  in a cluster of \<open>doc\<close> exactly when the cluster is keyed by the innermost region of
  the block; counting every cluster of the document, each block of the function is
  referenced in exactly one; and no block at all is referenced in a cluster of a region
  other than its innermost one.
\<close>

theorem owned_blocks_partition:
  assumes "cluster_tree_of RI (getTopLevelRegion RI) doc"
    and "distinct (map cluster_id (clusters_of doc))"
    and "\<And>BB. BB \<in> set fblocks \<Longrightarrow>
           \<exists>R. getRegionFor RI BB = Some R \<and> R \<in> set (map cluster_id (clusters_of doc)) \<and>
               BB \<in> set (blocks (region_at RI R))"
  shows \<open>addCustomGraphFeatures GW RI onlySimpleRegions =
           Some (CHR 0x09 # ''colorscheme = "paired12"\<newline>'' @
                 render_cluster GW RI onlySimpleRegions 4 doc) \<and>
         (\<forall>c\<in>set (clusters_of doc). \<forall>BB\<in>set fblocks.
            BB \<in> set (cluster_nodes c) \<longleftrightarrow> getRegionFor RI BB = Some (cluster_id c)) \<and>
         (\<forall>BB\<in>set fblocks.
            length (filter (\<lambda>c. BB \<in> set (cluster_nodes c)) (clusters_of doc)) = 1) \<and>
         (\<forall>c\<in>set (clusters_of doc). \<forall>BB\<in>set (cluster_nodes c).
            getRegionFor RI BB = Some (cluster_id c))\<close>
proof -
  have sub: "cluster_id c = R \<Longrightarrow>
      cluster_nodes c = filter (\<lambda>BB. getRegionFor RI BB = Some R) (blocks (region_at RI R))"
    if "c \<in> set (clusters_of doc)" for c R
    using cluster_tree_of_clusters [OF assms(1) that] cluster_tree_of_id_nodes by blast
  have iff: "BB \<in> set (cluster_nodes c) \<longleftrightarrow> getRegionFor RI BB = Some (cluster_id c)"
    if c: "c \<in> set (clusters_of doc)" and BB: "BB \<in> set fblocks" for c BB
    using sub [OF c refl] assms(3) [OF BB] by auto
  have "addCustomGraphFeatures GW RI onlySimpleRegions =
      Some (CHR 0x09 # ''colorscheme = \"paired12\"\<newline>'' @
            render_cluster GW RI onlySimpleRegions 4 doc)"
    by (simp add: addCustomGraphFeatures_def cluster_tree_of_printRegionCluster [OF assms(1)])
  moreover have "length (filter (\<lambda>c. BB \<in> set (cluster_nodes c)) (clusters_of doc)) = 1"
    if BB: "BB \<in> set fblocks" for BB
  proof -
    from assms(3) [OF BB] obtain R where R: "getRegionFor RI BB = Some R"
      "R \<in> cluster_id ` set (clusters_of doc)"
      by auto
    have "filter (\<lambda>c. BB \<in> set (cluster_nodes c)) (clusters_of doc) =
        filter (\<lambda>c. cluster_id c = R) (clusters_of doc)"
      by (rule filter_cong [OF refl]) (auto simp: iff [OF _ BB] R(1))
    then show ?thesis
      by (simp only: length_filter_distinct_map [OF assms(2) R(2)])
  qed
  moreover have "getRegionFor RI BB = Some (cluster_id c)"
    if "c \<in> set (clusters_of doc)" "BB \<in> set (cluster_nodes c)" for c BB
    using sub [OF that(1) refl] that(2) by simp
  ultimately show ?thesis
    using iff by blast
qed

text \<open>
  In the document for the two nested loops, block \<open>1\<close> is enumerated by the block
  iterators of all three regions and is referenced in the cluster of region \<open>300\<close> only.
\<close>

theorem owned_blocks_partition_witness:
  \<open>cluster_tree_of nested_RI (getTopLevelRegion nested_RI) nested_doc \<and>
   map cluster_id (clusters_of nested_doc) = [100, 200, 300] \<and>
   getRegionFor nested_RI 1 = Some 300 \<and>
   1 \<in> set (blocks (region_at nested_RI 300)) \<and>
   1 \<in> set (blocks (region_at nested_RI 200)) \<and>
   1 \<in> set (blocks (region_at nested_RI 100)) \<and>
   map cluster_nodes (clusters_of nested_doc) = [[0, 4], [3], [1, 2]] \<and>
   length (filter (\<lambda>c. 1 \<in> set (cluster_nodes c)) (clusters_of nested_doc)) = 1 \<and>
   addCustomGraphFeatures dot_GW nested_RI False =
     Some (CHR 0x09 # ''colorscheme = "paired12"\<newline>'' @
       ''        subgraph cluster_0x64 {\<newline>'' @
       ''          label = "";\<newline>'' @
       ''          style = filled;\<newline>'' @
       ''          color = 1\<newline>'' @
       ''          subgraph cluster_0xc8 {\<newline>'' @
       ''            label = "";\<newline>'' @
       ''            style = filled;\<newline>'' @
       ''            color = 3\<newline>'' @
       ''            subgraph cluster_0x12c {\<newline>'' @
       ''              label = "";\<newline>'' @
       ''              style = filled;\<newline>'' @
       ''              color = 5\<newline>'' @
       ''              Node0x3e9;\<newline>'' @
       ''              Node0x3ea;\<newline>'' @
       ''            }\<newline>'' @
       ''            Node0x3eb;\<newline>'' @
       ''          }\<newline>'' @
       ''          Node0x3e8;\<newline>'' @
       ''          Node0x3ec;\<newline>'' @
       ''        }\<newline>'')\<close>
proof -
  let ?text = "render_cluster dot_GW nested_RI False 4 nested_doc"
  note defs = nested_RI_def nested_region_def
  have top: "getTopLevelRegion nested_RI = 100"
    by (simp add: defs)
  have tree: "cluster_tree_of nested_RI (getTopLevelRegion nested_RI) nested_doc"
    using nested_RI_doc by (simp only: top)
  have ids: "map cluster_id (clusters_of nested_doc) = [100, 200, 300]"
    and nodes: "map cluster_nodes (clusters_of nested_doc) = [[0, 4], [3], [1, 2]]"
    by (simp_all add: nested_doc_def)
  have once: "distinct (map cluster_id (clusters_of nested_doc))"
    by (simp add: ids)
  have inv: "\<exists>R. getRegionFor nested_RI BB = Some R \<and>
      R \<in> set (map cluster_id (clusters_of nested_doc)) \<and>
      BB \<in> set (blocks (region_at nested_RI R))" if "BB \<in> set [0, 1, 2, 3, 4]" for BB
  proof -
    from that consider "BB \<in> {1, 2}" | "BB = 3" | "BB \<in> {0, 4}" by auto
    then show ?thesis
      by cases (auto simp: ids defs)
  qed
  note part = owned_blocks_partition [of nested_RI nested_doc "[0, 1, 2, 3, 4]" dot_GW False,
      OF tree once inv]
  from part have "\<forall>BB\<in>set [0, 1, 2, 3, 4].
      length (filter (\<lambda>c. BB \<in> set (cluster_nodes c)) (clusters_of nested_doc)) = 1"
    by blast
  then have one: "length (filter (\<lambda>c. 1 \<in> set (cluster_nodes c)) (clusters_of nested_doc)) = 1"
    by simp
  from part have emitted: "addCustomGraphFeatures dot_GW nested_RI False =
      Some (CHR 0x09 # ''colorscheme = \"paired12\"\<newline>'' @ ?text)"
    by blast
  have blocks: "getRegionFor nested_RI 1 = Some 300"
    "1 \<in> set (blocks (region_at nested_RI 300))" "1 \<in> set (blocks (region_at nested_RI 200))"
    "1 \<in> set (blocks (region_at nested_RI 100))"
    by (simp_all add: defs)
  have "cluster_tree_of nested_RI (getTopLevelRegion nested_RI) nested_doc \<and>
      map cluster_id (clusters_of nested_doc) = [100, 200, 300] \<and>
      getRegionFor nested_RI 1 = Some 300 \<and>
      1 \<in> set (blocks (region_at nested_RI 300)) \<and>
      1 \<in> set (blocks (region_at nested_RI 200)) \<and>
      1 \<in> set (blocks (region_at nested_RI 100)) \<and>
      map cluster_nodes (clusters_of nested_doc) = [[0, 4], [3], [1, 2]] \<and>
      length (filter (\<lambda>c. 1 \<in> set (cluster_nodes c)) (clusters_of nested_doc)) = 1 \<and>
      addCustomGraphFeatures dot_GW nested_RI False =
        Some (CHR 0x09 # ''colorscheme = \"paired12\"\<newline>'' @ ?text)"
    using tree ids blocks nodes one emitted by (intro conjI)
  then show ?thesis
    unfolding nested_RI_text_all .
qed

subsection \<open>Indentation\<close>

lemma ends_line_Nil [simp]: "ends_line []"
  by (simp add: ends_line_def)

lemma ends_line_append: "ends_line a \<Longrightarrow> ends_line b \<Longrightarrow> ends_line (a @ b)"
  by (auto simp: ends_line_def last_append)

lemma ends_line_snoc: "ends_line (a @ ''\<newline>'')"
  by (simp add: ends_line_def)

lemma ends_line_concat: "(\<And>s. s \<in> set ss \<Longrightarrow> ends_line s) \<Longrightarrow> ends_line (concat ss)"
  by (induction ss) (simp_all add: ends_line_append)

lemma strip_indent_spaces:
  "strip_indent True (replicate n (CHR '' '') @ s) = strip_indent True s"
  by (induction n) simp_all

lemma strip_indent_indent: "strip_indent True (indent k @ s) = strip_indent True s"
  by (simp add: indent_def strip_indent_spaces)

lemma strip_indent_newline:
  "strip_indent b (s @ CHR 0x0A # t) = strip_indent b (s @ [CHR 0x0A]) @ strip_indent True t"
  by (induction s arbitrary: b) simp_all

lemma strip_indent_append:
  assumes "ends_line a"
  shows "strip_indent True (a @ b) = strip_indent True a @ strip_indent True b"
proof (cases "a = []")
  case True
  then show ?thesis by simp
next
  case False
  with assms have "last a = CHR 0x0A"
    by (simp add: ends_line_def)
  with False have "a = butlast a @ [CHR 0x0A]"
    using append_butlast_last_id [of a] by simp
  then obtain a' where a': "a = a' @ [CHR 0x0A]" ..
  show ?thesis
    unfolding a' using strip_indent_newline [of True a' b] by simp
qed

lemma strip_indent_concat:
  "(\<And>s. s \<in> set ss \<Longrightarrow> ends_line s) \<Longrightarrow>
   strip_indent True (concat ss) = concat (map (strip_indent True) ss)"
  by (induction ss) (simp_all add: strip_indent_append)

text \<open>Only spaces are removed.\<close>

lemma strip_indent_keeps:
  "filter (\<lambda>c. c \<noteq> CHR '' '') (strip_indent b s) = filter (\<lambda>c. c \<noteq> CHR '' '') s"
  by (induction s arbitrary: b) simp_all

lemma ends_line_cluster_head: "ends_line (cluster_head GW R depth)"
  by (simp add: cluster_head_def ends_line_def)

lemma ends_line_cluster_style: "ends_line (cluster_style GW RI only R depth)"
  by (simp add: cluster_style_def ends_line_def)

lemma ends_line_cluster_open: "ends_line (cluster_open GW RI only R depth)"
  unfolding cluster_open_def
  by (intro ends_line_append ends_line_cluster_head ends_line_cluster_style)

lemma ends_line_node_line: "ends_line (node_line GW RI depth BB)"
  by (simp add: node_line_def ends_line_def)

lemma ends_line_cluster_blocks: "ends_line (cluster_blocks GW RI R depth)"
  unfolding cluster_blocks_def
  by (rule ends_line_concat) (auto simp: ends_line_node_line)

lemma ends_line_cluster_close: "ends_line (cluster_close depth)"
  by (simp add: cluster_close_def ends_line_def)

lemma emits_ends_line: "emits GW RI only R depth out \<Longrightarrow> ends_line out"
  by (erule emits.cases) (simp add: ends_line_def cluster_close_def)

lemma strip_two_lines:
  assumes "ends_line L1"
  shows "strip_indent True (indent j @ L1 @ indent k @ L2) =
         strip_indent True L1 @ strip_indent True L2"
proof -
  have "strip_indent True (indent j @ L1 @ indent k @ L2) = strip_indent True (L1 @ indent k @ L2)"
    by (rule strip_indent_indent)
  also have "\<dots> = strip_indent True L1 @ strip_indent True (indent k @ L2)"
    by (rule strip_indent_append [OF assms])
  finally show ?thesis
    by (simp only: strip_indent_indent)
qed

lemma strip_cluster_head:
  "strip_indent True (cluster_head GW R depth) = strip_indent True (cluster_head GW R depth')"
proof -
  let ?L1 = "''subgraph cluster_'' @ write_ptr GW R @ '' {\<newline>''"
  let ?L2 = "''label = \"\";\<newline>''"
  have L1: "ends_line ?L1"
    by (simp add: ends_line_def)
  have "strip_indent True (cluster_head GW R d) = strip_indent True ?L1 @ strip_indent True ?L2"
    for d
  proof -
    have "cluster_head GW R d = indent (2 * d) @ ?L1 @ indent (2 * (d + 1)) @ ?L2"
      by (simp add: cluster_head_def)
    then have "strip_indent True (cluster_head GW R d) =
        strip_indent True (?L1 @ indent (2 * (d + 1)) @ ?L2)"
      by (simp only: strip_indent_indent)
    also have "\<dots> = strip_indent True ?L1 @ strip_indent True (indent (2 * (d + 1)) @ ?L2)"
      by (rule strip_indent_append [OF L1])
    finally show ?thesis
      by (simp only: strip_indent_indent)
  qed
  then show ?thesis by simp
qed

lemma strip_cluster_style:
  "strip_indent True (cluster_style GW RI only R depth) =
   strip_indent True (cluster_style GW RI only R depth')"
proof -
  let ?sc = "ColorAssignment only (isSimple (region_at RI R)) (getDepth (region_at RI R))"
  let ?L1 = "''style = '' @ fst ?sc @ '';\<newline>''"
  let ?L2 = "''color = '' @ write_unsigned GW (snd ?sc) @ ''\<newline>''"
  have L1: "ends_line ?L1"
    by (simp add: ends_line_def)
  have "strip_indent True (cluster_style GW RI only R d) =
      strip_indent True ?L1 @ strip_indent True ?L2" for d
  proof -
    have "cluster_style GW RI only R d =
        indent (2 * (d + 1)) @ ?L1 @ indent (2 * (d + 1)) @ ?L2"
      by (simp add: cluster_style_ColorAssignment)
    then show ?thesis
      by (simp only: strip_two_lines [OF L1])
  qed
  then show ?thesis by simp
qed

lemma strip_cluster_open:
  "strip_indent True (cluster_open GW RI only R depth) =
   strip_indent True (cluster_open GW RI only R depth')"
  unfolding cluster_open_def
  by (simp only: strip_indent_append [OF ends_line_cluster_head]
      strip_cluster_head [of GW R depth depth'] strip_cluster_style [of GW RI only R depth depth'])

lemma strip_node_line:
  "strip_indent True (node_line GW RI depth BB) = strip_indent True (node_line GW RI depth' BB)"
  by (simp only: node_line_def strip_indent_indent)

lemma strip_cluster_blocks:
  "strip_indent True (cluster_blocks GW RI R depth) =
   strip_indent True (cluster_blocks GW RI R depth')"
proof -
  have "strip_indent True (cluster_blocks GW RI R d) =
      concat (map (\<lambda>BB. strip_indent True (node_line GW RI d BB)) (owned_blocks RI R))" for d
    unfolding cluster_blocks_def
    by (subst strip_indent_concat) (auto simp: ends_line_node_line comp_def)
  then show ?thesis
    using strip_node_line [of GW RI depth _ depth'] by simp
qed

lemma strip_cluster_close:
  "strip_indent True (cluster_close depth) = strip_indent True (cluster_close depth')"
  by (simp only: cluster_close_def strip_indent_indent)

lemma list_all2_choose:
  "list_all2 (\<lambda>C s. \<exists>s'. Q C s' \<and> T s s') Cs ss \<Longrightarrow>
   \<exists>ss'. list_all2 Q Cs ss' \<and> list_all2 T ss ss'"
proof (induction rule: list_all2_induct)
  case Nil
  show ?case by simp
next
  case (Cons C Cs s ss)
  then obtain s' ss' where "Q C s'" "T s s'" "list_all2 Q Cs ss'" "list_all2 T ss ss'"
    by blast
  then have "list_all2 Q (C # Cs) (s' # ss') \<and> list_all2 T (s # ss) (s' # ss')"
    by simp
  then show ?case by blast
qed

text \<open>The text written for a region at another depth differs in the indentation only.\<close>

lemma emits_depth:
  "emits GW RI only R depth out \<Longrightarrow>
   \<exists>out'. emits GW RI only R depth' out' \<and>
          strip_indent True out' = strip_indent True out"
proof (induction arbitrary: depth' rule: emits.induct)
  case (cluster GW RI only depth R subs)
  let ?Cs = "subregions (region_at RI R)"
  from cluster.IH have
    "list_all2 (\<lambda>C s. \<exists>s'. emits GW RI only C (depth' + 1) s' \<and>
        (ends_line s \<and> strip_indent True s' = strip_indent True s)) ?Cs subs"
    by (rule list_all2_mono) (auto intro: emits_ends_line)
  from list_all2_choose [OF this] obtain subs' where subs':
    "list_all2 (\<lambda>C s'. emits GW RI only C (depth' + 1) s') ?Cs subs'"
    "list_all2 (\<lambda>s s'. ends_line s \<and> strip_indent True s' = strip_indent True s) subs subs'"
    by blast
  have e: "ends_line s" if "s \<in> set subs" for s
    using that subs'(2) by (auto simp: list_all2_conv_all_nth in_set_conv_nth)
  have e': "ends_line s'" if "s' \<in> set subs'" for s'
  proof -
    from that obtain i where "i < length subs'" "s' = subs' ! i"
      by (auto simp: in_set_conv_nth)
    with subs'(1) have "emits GW RI only (?Cs ! i) (depth' + 1) s'"
      by (auto simp: list_all2_conv_all_nth)
    then show ?thesis by (rule emits_ends_line)
  qed
  from subs'(2) have "map (strip_indent True) subs' = map (strip_indent True) subs"
    by (induction rule: list_all2_induct) simp_all
  then have mid: "strip_indent True (concat subs') = strip_indent True (concat subs)"
    by (simp add: strip_indent_concat e e')
  let ?out = "\<lambda>d ss. cluster_open GW RI only R d @ concat ss @
      cluster_blocks GW RI R d @ cluster_close d"
  have split: "strip_indent True (?out d ss) =
      strip_indent True (cluster_open GW RI only R d) @ strip_indent True (concat ss) @
      strip_indent True (cluster_blocks GW RI R d) @ strip_indent True (cluster_close d)"
    if "\<And>s. s \<in> set ss \<Longrightarrow> ends_line s" for d ss
    using that
    by (simp only: strip_indent_append [OF ends_line_cluster_open]
        strip_indent_append [OF ends_line_concat] strip_indent_append [OF ends_line_cluster_blocks])
  have "strip_indent True (?out depth' subs') = strip_indent True (?out depth subs)"
    by (simp only: split [OF e] split [OF e'] mid strip_cluster_open [of GW RI only R depth' depth]
        strip_cluster_blocks [of GW RI R depth' depth] strip_cluster_close [of depth' depth])
  moreover have "emits GW RI only R depth' (?out depth' subs')"
    using subs'(1) by (rule emits.cluster)
  ultimately show ?case by blast
qed

text \<open>
  Claim C10. When the cluster emitter returns a text for a region at one depth, it
  returns a text at every other depth, and the two texts are equal once the indentation,
  the spaces at the beginning of each line, is removed; removing the indentation removes
  nothing but spaces. In particular the document of the post-pass, which starts the
  emitter at depth 4 on the top-level region, is equal up to indentation to the one
  obtained with any other initial depth.
\<close>

theorem depth_only_indents:
  assumes "printRegionCluster GW RI onlySimpleRegions R depth = Some out"
  shows "(\<exists>out'. printRegionCluster GW RI onlySimpleRegions R depth' = Some out' \<and>
                 strip_indent True out' = strip_indent True out) \<and>
         filter (\<lambda>c. c \<noteq> CHR '' '') (strip_indent True out) = filter (\<lambda>c. c \<noteq> CHR '' '') out \<and>
         (R = getTopLevelRegion RI \<and> depth = 4 \<longrightarrow>
            (\<exists>doc out'.
               addCustomGraphFeatures GW RI onlySimpleRegions = Some doc \<and>
               printRegionCluster GW RI onlySimpleRegions R depth' = Some out' \<and>
               strip_indent True doc =
                 strip_indent True (CHR 0x09 # ''colorscheme = \"paired12\"\<newline>'' @ out')))"
proof -
  let ?line = "CHR 0x09 # ''colorscheme = \"paired12\"\<newline>''"
  from assms have "emits GW RI onlySimpleRegions R depth out"
    by (rule printRegionCluster_emits)
  from emits_depth [OF this, of depth'] obtain out' where out':
    "printRegionCluster GW RI onlySimpleRegions R depth' = Some out'"
    "strip_indent True out' = strip_indent True out"
    by (auto dest: emits_printRegionCluster)
  have line: "ends_line ?line"
    by (simp add: ends_line_def)
  have "strip_indent True (?line @ out) = strip_indent True (?line @ out')"
    by (simp only: strip_indent_append [OF line] out'(2))
  moreover have "addCustomGraphFeatures GW RI onlySimpleRegions = Some (?line @ out)"
    if "R = getTopLevelRegion RI \<and> depth = 4"
    using that assms by (simp add: addCustomGraphFeatures_def)
  ultimately have "\<exists>doc out'.
      addCustomGraphFeatures GW RI onlySimpleRegions = Some doc \<and>
      printRegionCluster GW RI onlySimpleRegions R depth' = Some out' \<and>
      strip_indent True doc = strip_indent True (?line @ out')"
    if "R = getTopLevelRegion RI \<and> depth = 4"
    using that out'(1) by blast
  then show ?thesis
    using out' by (simp add: strip_indent_keeps)
qed

theorem depth_only_indents_witness:
  "\<exists>out4 out0 doc.
     printRegionCluster dot_GW loop_RI False 100 4 = Some out4 \<and>
     printRegionCluster dot_GW loop_RI False 100 0 = Some out0 \<and>
     getTopLevelRegion loop_RI = 100 \<and>
     addCustomGraphFeatures dot_GW loop_RI False = Some doc \<and>
     strip_indent True out0 = strip_indent True out4 \<and>
     strip_indent True doc =
       strip_indent True (CHR 0x09 # ''colorscheme = \"paired12\"\<newline>'' @ out0) \<and>
     strip_indent True (cluster_close 4) = ''}\<newline>''"
proof -
  obtain out4 where out4: "printRegionCluster dot_GW loop_RI False 100 4 = Some out4"
    using printRegionCluster_returns [OF loop_RI_tree] by blast
  have top: "getTopLevelRegion loop_RI = 100"
    by (simp add: loop_RI_def)
  from depth_only_indents [OF out4, of 0] top
  obtain out0 doc where
    "printRegionCluster dot_GW loop_RI False 100 0 = Some out0"
    "strip_indent True out0 = strip_indent True out4"
    "addCustomGraphFeatures dot_GW loop_RI False = Some doc"
    "strip_indent True doc =
       strip_indent True (CHR 0x09 # ''colorscheme = \"paired12\"\<newline>'' @ out0)"
    by auto
  moreover have "strip_indent True (cluster_close 4) = ''}\<newline>''"
    by (simp add: cluster_close_def strip_indent_indent)
  ultimately show ?thesis
    using out4 top by blast
qed

end
